theory Spec2Isabelle
  imports Main "HOL-Library.Word" "HOL-Library.Sublist" "HOL-Library.Multiset"
begin

unbundle bit_operations_syntax

section \<open>String helpers of GLib and libc\<close>

text \<open>
  C strings are modelled as \<^typ>\<open>string\<close> (a list of bytes without the terminating NUL).
  The helpers below are the GLib and libc functions that the two source files call.
\<close>

text \<open>
  GLib's \<open>g_ascii_isspace\<close>: space, tab, line feed, form feed and carriage return (the
  vertical tab is not white space for GLib).
\<close>

definition g_ascii_isspace :: "char \<Rightarrow> bool" where
  "g_ascii_isspace c =
     (c = CHR '' '' \<or> c = CHR 0x09 \<or> c = CHR 0x0A \<or> c = CHR 0x0C \<or> c = CHR 0x0D)"

definition g_strchug :: "string \<Rightarrow> string" where
  "g_strchug s = dropWhile g_ascii_isspace s"

definition g_strchomp :: "string \<Rightarrow> string" where
  "g_strchomp s = rev (dropWhile g_ascii_isspace (rev s))"

definition g_strstrip :: "string \<Rightarrow> string" where
  "g_strstrip s = g_strchomp (g_strchug s)"

definition g_ascii_tolower :: "char \<Rightarrow> char" where
  "g_ascii_tolower c =
     (if of_char CHR ''A'' \<le> (of_char c :: nat) \<and> (of_char c :: nat) \<le> of_char CHR ''Z''
      then char_of ((of_char c :: nat) + 32) else c)"

definition g_ascii_strdown :: "string \<Rightarrow> string" where
  "g_ascii_strdown s = map g_ascii_tolower s"

definition g_str_equal :: "string \<Rightarrow> string \<Rightarrow> bool" where
  "g_str_equal a b = (a = b)"

definition g_str_has_suffix :: "string \<Rightarrow> string \<Rightarrow> bool" where
  "g_str_has_suffix str sfx =
     (length sfx \<le> length str \<and> drop (length str - length sfx) str = sfx)"

text \<open>\<open>strstr haystack needle\<close> is true when the C function returns a non-NULL pointer.\<close>

fun strstr :: "string \<Rightarrow> string \<Rightarrow> bool" where
  "strstr [] needle = (needle = [])"
| "strstr (h # hs) needle =
     (if take (length needle) (h # hs) = needle then True else strstr hs needle)"

text \<open>
  \<open>strcmp\<close> (and \<open>g_strcmp0\<close> on non-NULL arguments) compares bytes as unsigned
  characters; only the sign of the C result is specified, so the model returns
  \<open>-1\<close>, \<open>0\<close> or \<open>1\<close>.
\<close>

fun strcmp :: "string \<Rightarrow> string \<Rightarrow> int" where
  "strcmp [] [] = 0"
| "strcmp [] (b # bs) = -1"
| "strcmp (a # as) [] = 1"
| "strcmp (a # as) (b # bs) =
     (if a = b then strcmp as bs
      else if (of_char a :: nat) < of_char b then -1 else 1)"

text \<open>
  \<open>strrchr s c\<close> followed by \<open>+= 1\<close>: the text after the last occurrence of \<open>c\<close>,
  or \<open>None\<close> when \<open>c\<close> does not occur (the C function returns NULL).
\<close>

fun strrchr_after :: "string \<Rightarrow> char \<Rightarrow> string option" where
  "strrchr_after [] c = None"
| "strrchr_after (x # xs) c =
     (case strrchr_after xs c of
        Some r \<Rightarrow> Some r
      | None \<Rightarrow> if x = c then Some xs else None)"

section \<open>Data model (polkitbackendpolicyfile.h)\<close>

text \<open>
  Modelled from the spec: the enumeration \<open>PolkitImplicitAuthorization\<close> is declared in
  polkit's public headers, which are not among the sources; the spec describes it as the
  verdict with an unknown member, a deny member and several grant variants.  The members
  are named as the source refers to them, without the common prefix
  \<open>POLKIT_IMPLICIT_AUTHORIZATION_\<close>.
\<close>

datatype PolkitImplicitAuthorization =
    UNKNOWN
  | NOT_AUTHORIZED
  | AUTHENTICATION_REQUIRED
  | ADMINISTRATOR_AUTHENTICATION_REQUIRED
  | AUTHENTICATION_REQUIRED_RETAINED
  | ADMINISTRATOR_AUTHENTICATION_REQUIRED_RETAINED
  | AUTHORIZED

definition POLICY_SECTION :: string where "POLICY_SECTION = ''Policy''"
definition POLICY_MATCH_ALL :: string where "POLICY_MATCH_ALL = ''*''"
definition POLICY_MATCH_WHEEL :: string where "POLICY_MATCH_WHEEL = ''%sudo%''"

text \<open>The enum \<open>PolicyFileConstraints\<close>: bit masks stored in an \<open>unsigned int\<close>.\<close>

definition PF_CONSTRAINT_MIN :: "32 word" where "PF_CONSTRAINT_MIN = push_bit 0 1"
definition PF_CONSTRAINT_ACTIONS :: "32 word" where "PF_CONSTRAINT_ACTIONS = push_bit 1 1"
definition PF_CONSTRAINT_ACTION_CONTAINS :: "32 word" where
  "PF_CONSTRAINT_ACTION_CONTAINS = push_bit 2 1"
definition PF_CONSTRAINT_SUBJECT_ACTIVE :: "32 word" where
  "PF_CONSTRAINT_SUBJECT_ACTIVE = push_bit 3 1"
definition PF_CONSTRAINT_SUBJECT_LOCAL :: "32 word" where
  "PF_CONSTRAINT_SUBJECT_LOCAL = push_bit 4 1"
definition PF_CONSTRAINT_UNIX_GROUPS :: "32 word" where
  "PF_CONSTRAINT_UNIX_GROUPS = push_bit 5 1"
definition PF_CONSTRAINT_UNIX_NAMES :: "32 word" where
  "PF_CONSTRAINT_UNIX_NAMES = push_bit 6 1"
definition PF_CONSTRAINT_NET_GROUPS :: "32 word" where
  "PF_CONSTRAINT_NET_GROUPS = push_bit 7 1"
definition PF_CONSTRAINT_RESULT :: "32 word" where "PF_CONSTRAINT_RESULT = push_bit 8 1"
definition PF_CONSTRAINT_RESULT_INVERSE :: "32 word" where
  "PF_CONSTRAINT_RESULT_INVERSE = push_bit 9 1"

text \<open>
  The struct \<open>Policy\<close>.  The \<open>next\<close> pointer is not a field: a chain of policies is a
  list, and a function that follows \<open>policy->next\<close> receives the rest of the chain
  (\<open>[]\<close> for NULL).  The element counts \<open>n_actions\<close>, ... are the lengths of the lists.
  The field \<open>id\<close> is called \<open>policy_id\<close>.
\<close>

record Policy =
  policy_id :: string
  actions :: "string list"
  action_contains :: "string list"
  unix_groups :: "string list"
  unix_names :: "string list"
  net_groups :: "string list"
  require_active :: bool
  require_local :: bool
  response :: PolkitImplicitAuthorization
  response_inverse :: PolkitImplicitAuthorization
  constraints :: "32 word"

text \<open>
  The struct \<open>PolicyContext\<close>, with the fields that matching reads.  The subject, the
  user, the details and the session and seat names are carried by the C struct but never
  read by \<open>policy_test\<close>.
\<close>

record PolicyContext =
  subject_is_local :: bool
  subject_is_active :: bool
  groups :: "string list"
  username :: string

text \<open>The struct \<open>PolicyFile\<close>; a NULL chain is \<open>[]\<close>, and \<open>next\<close> is again the list.\<close>

record PolicyFile =
  normal :: "Policy list"
  admin :: "Policy list"

text \<open>\<open>(constraints & flag) == flag\<close>\<close>

definition has_constraint :: "Policy \<Rightarrow> 32 word \<Rightarrow> bool" where
  "has_constraint policy flag = ((constraints policy AND flag) = flag)"

section \<open>Evaluation (\<open>policy_test\<close>, \<open>policy_file_test\<close>)\<close>

text \<open>The loop over \<open>policy->actions\<close>: true when it leaves by \<open>break\<close>.\<close>

fun actions_loop :: "string list \<Rightarrow> string \<Rightarrow> bool" where
  "actions_loop [] action_id = False"
| "actions_loop (a # as) action_id =
     (let action = g_strstrip a in
      if g_str_equal action action_id \<or> g_str_equal action POLICY_MATCH_ALL then True
      else actions_loop as action_id)"

text \<open>The loop over \<open>policy->action_contains\<close>.\<close>

fun action_contains_loop :: "string list \<Rightarrow> string \<Rightarrow> bool" where
  "action_contains_loop [] action_id = False"
| "action_contains_loop (a # as) action_id =
     (let action = g_strstrip a in
      if strstr action_id action then True else action_contains_loop as action_id)"

text \<open>
  The inner loop over \<open>context->groups\<close> for one entry of \<open>policy->unix_groups\<close>,
  with the substitution of \<open>POLICY_MATCH_WHEEL\<close> by \<open>POLICY_WHEEL_GROUP\<close>.  The latter is
  the build-time macro \<open>WHEEL_GROUP\<close>, a parameter \<open>wheel\<close> of the model.
\<close>

fun unix_groups_inner :: "string \<Rightarrow> string \<Rightarrow> string list \<Rightarrow> bool" where
  "unix_groups_inner wheel entry [] = False"
| "unix_groups_inner wheel entry (test_group # rest) =
     (let spec_group = g_strstrip entry;
          group = (if g_str_equal spec_group POLICY_MATCH_WHEEL then wheel else spec_group)
      in if g_str_equal group test_group then True
         else unix_groups_inner wheel entry rest)"

text \<open>
  The outer loop: \<open>break\<close> leaves the inner loop only, so every entry is visited and
  \<open>local_test\<close> stays true once set.
\<close>

fun unix_groups_loop :: "string \<Rightarrow> string list \<Rightarrow> string list \<Rightarrow> bool \<Rightarrow> bool" where
  "unix_groups_loop wheel [] ctx_groups local_test = local_test"
| "unix_groups_loop wheel (entry # es) ctx_groups local_test =
     unix_groups_loop wheel es ctx_groups
       (if unix_groups_inner wheel entry ctx_groups then True else local_test)"

text \<open>The loop over \<open>policy->unix_names\<close>.\<close>

fun unix_names_loop :: "string list \<Rightarrow> string \<Rightarrow> bool" where
  "unix_names_loop [] user = False"
| "unix_names_loop (n # ns) user =
     (let name = g_strstrip n in
      if g_str_equal name user then True else unix_names_loop ns user)"

text \<open>
  The body of \<open>policy_test\<close> up to the label \<open>unmatched\<close>: the values of
  \<open>id_matched\<close>, \<open>conditions\<close> and \<open>response\<close> with which the label is reached.
  A failing \<open>SubjectActive\<close> jumps with \<open>conditions\<close> still true; the three later
  checks clear it before they jump.
\<close>

definition policy_test_body ::
  "string \<Rightarrow> Policy \<Rightarrow> string \<Rightarrow> PolicyContext \<Rightarrow> bool \<times> bool \<times> PolkitImplicitAuthorization"
where
  "policy_test_body wheel policy action_id context =
     (let conditions =
            (has_constraint policy PF_CONSTRAINT_ACTIONS
             \<and> actions_loop (actions policy) action_id);
          conditions =
            (if has_constraint policy PF_CONSTRAINT_ACTION_CONTAINS
                \<and> action_contains_loop (action_contains policy) action_id
             then True else conditions)
      in
      if \<not> conditions then (False, False, UNKNOWN)
      else if has_constraint policy PF_CONSTRAINT_SUBJECT_ACTIVE
              \<and> subject_is_active context \<noteq> require_active policy
        then (True, True, UNKNOWN)
      else if has_constraint policy PF_CONSTRAINT_SUBJECT_LOCAL
              \<and> subject_is_local context \<noteq> require_local policy
        then (True, False, UNKNOWN)
      else if has_constraint policy PF_CONSTRAINT_UNIX_GROUPS
              \<and> \<not> unix_groups_loop wheel (unix_groups policy) (groups context) False
        then (True, False, UNKNOWN)
      else if has_constraint policy PF_CONSTRAINT_UNIX_NAMES
              \<and> \<not> unix_names_loop (unix_names policy) (username context)
        then (True, False, UNKNOWN)
      else (True, True,
            if has_constraint policy PF_CONSTRAINT_RESULT then response policy else UNKNOWN))"

text \<open>
  \<open>policy_test\<close>: the code after the label \<open>unmatched\<close>, with the two recursive calls on
  \<open>policy->next\<close>.  The second argument is the chain behind \<open>policy->next\<close>.
\<close>

fun policy_test ::
  "string \<Rightarrow> Policy \<Rightarrow> Policy list \<Rightarrow> string \<Rightarrow> PolicyContext \<Rightarrow> PolkitImplicitAuthorization"
where
  "policy_test wheel policy nxt action_id context =
     (case policy_test_body wheel policy action_id context of
        (id_matched, conditions, resp) \<Rightarrow>
          if \<not> id_matched then
            (case nxt of
               [] \<Rightarrow> resp
             | p # ps \<Rightarrow>
                 if resp = UNKNOWN then policy_test wheel p ps action_id context
                 else resp)
          else if \<not> conditions \<and> has_constraint policy PF_CONSTRAINT_RESULT_INVERSE
            then response_inverse policy
          else
            (case nxt of
               [] \<Rightarrow> resp
             | p # ps \<Rightarrow>
                 if resp = UNKNOWN then policy_test wheel p ps action_id context
                 else resp))"

declare policy_test.simps [simp del]

text \<open>
  \<open>policy_file_test\<close>: the first argument is the (non-NULL) file, the second the chain
  behind \<open>file->next\<close>.
\<close>

fun policy_file_test ::
  "string \<Rightarrow> PolicyFile \<Rightarrow> PolicyFile list \<Rightarrow> string \<Rightarrow> PolicyContext
     \<Rightarrow> PolkitImplicitAuthorization"
where
  "policy_file_test wheel file nxt action_id context =
     (let resp =
            (case normal file of
               [] \<Rightarrow> UNKNOWN
             | p # ps \<Rightarrow> policy_test wheel p ps action_id context)
      in case nxt of
           [] \<Rightarrow> resp
         | f # fs \<Rightarrow>
             if resp = UNKNOWN then policy_file_test wheel f fs action_id context
             else resp)"

declare policy_file_test.simps [simp del]

section \<open>Compilation of a rule file (\<open>policy_file_new_from_path\<close>)\<close>

text \<open>
  A parsed \<open>GKeyFile\<close> is what GLib's accessors answer about it.  The accessors that
  take a \<open>GError **\<close> return \<open>None\<close> when they set the error.
\<close>

record GKeyFile =
  g_key_file_has_group :: "string \<Rightarrow> bool"
  g_key_file_has_key :: "string \<Rightarrow> string \<Rightarrow> bool"
  g_key_file_get_string_list :: "string \<Rightarrow> string \<Rightarrow> string list option"
  g_key_file_get_string :: "string \<Rightarrow> string \<Rightarrow> string option"
  g_key_file_get_boolean :: "string \<Rightarrow> string \<Rightarrow> bool option"

text \<open>
  What the code takes from libpolkit, whose sources are not among the files:
  \<open>polkit_implicit_authorization_from_string\<close> (\<open>None\<close> when it returns FALSE), the
  member of \<open>PolkitImplicitAuthorization\<close> that a zero-filled field holds after
  \<open>g_new0\<close>, and \<open>polkit_identity_from_string\<close> (\<open>None\<close> when it sets the error).
\<close>

datatype PolkitIdentity =
    UnixUser "32 word"
  | UnixGroup "32 word"
  | UnixNetgroup string

record libpolkit =
  polkit_implicit_authorization_from_string :: "string \<Rightarrow> PolkitImplicitAuthorization option"
  zero_implicit_authorization :: PolkitImplicitAuthorization
  polkit_identity_from_string :: "string \<Rightarrow> PolkitIdentity option"

definition policy_string_to_result :: "libpolkit \<Rightarrow> string \<Rightarrow> PolkitImplicitAuthorization" where
  "policy_string_to_result lib inp =
     (let comparison = g_ascii_strdown inp in
      case polkit_implicit_authorization_from_string lib (g_strstrip comparison) of
        None \<Rightarrow> UNKNOWN
      | Some ret \<Rightarrow> ret)"

text \<open>\<open>g_new0 (Policy, 1)\<close> followed by the assignment of \<open>id\<close>.\<close>

definition policy_new0 :: "libpolkit \<Rightarrow> string \<Rightarrow> Policy" where
  "policy_new0 lib section_id =
     \<lparr> policy_id = section_id, actions = [], action_contains = [], unix_groups = [],
       unix_names = [], net_groups = [], require_active = False, require_local = False,
       response = zero_implicit_authorization lib,
       response_inverse = zero_implicit_authorization lib,
       constraints = 0 \<rparr>"

text \<open>
  How a function of the compiler ends: it returns a value, it returns NULL (or FALSE), or
  the process dies on a read through a NULL pointer.  The label \<open>handle_err\<close> of
  \<open>policy_load\<close> prints \<open>err->message\<close>: the jumps taken after GLib has set \<open>err\<close>
  return NULL, the jumps taken for an invalid verdict string reach the label with \<open>err\<close>
  still NULL.
\<close>

datatype 'a outcome =
    Segfault
  | Null
  | Value 'a

definition and_then :: "'a outcome \<Rightarrow> ('a \<Rightarrow> 'b outcome) \<Rightarrow> 'b outcome" where
  "and_then r f = (case r of Segfault \<Rightarrow> Segfault | Null \<Rightarrow> Null | Value x \<Rightarrow> f x)"

text \<open>One block of \<open>policy_load\<close> for a list-valued key.\<close>

definition load_string_list ::
  "GKeyFile \<Rightarrow> string \<Rightarrow> string \<Rightarrow> (string list \<Rightarrow> Policy \<Rightarrow> Policy) \<Rightarrow> 32 word \<Rightarrow> Policy
     \<Rightarrow> Policy outcome"
where
  "load_string_list file section_id key store flag policy =
     (if g_key_file_has_key file section_id key then
        (case g_key_file_get_string_list file section_id key of
           None \<Rightarrow> Null
         | Some l \<Rightarrow>
             Value ((store l policy)\<lparr>constraints := constraints (store l policy) OR flag\<rparr>))
      else Value policy)"

text \<open>The block for \<open>Result\<close>.\<close>

definition load_result :: "libpolkit \<Rightarrow> GKeyFile \<Rightarrow> string \<Rightarrow> Policy \<Rightarrow> Policy outcome" where
  "load_result lib file section_id policy =
     (if g_key_file_has_key file section_id ''Result'' then
        (case g_key_file_get_string file section_id ''Result'' of
           None \<Rightarrow> Null
         | Some result \<Rightarrow>
             (let policy = policy\<lparr>response := policy_string_to_result lib (g_strstrip result)\<rparr>
              in if response policy = UNKNOWN then Segfault
                 else Value (policy\<lparr>constraints := constraints policy OR PF_CONSTRAINT_RESULT\<rparr>)))
      else Value policy)"

text \<open>
  The block for \<open>ResultInverse\<close>.  The test after the assignment reads
  \<open>policy->response\<close>, as the source does.
\<close>

definition load_result_inverse ::
  "libpolkit \<Rightarrow> GKeyFile \<Rightarrow> string \<Rightarrow> Policy \<Rightarrow> Policy outcome"
where
  "load_result_inverse lib file section_id policy =
     (if g_key_file_has_key file section_id ''ResultInverse'' then
        (case g_key_file_get_string file section_id ''ResultInverse'' of
           None \<Rightarrow> Null
         | Some result \<Rightarrow>
             (let policy =
                    policy\<lparr>response_inverse := policy_string_to_result lib (g_strstrip result)\<rparr>
              in if response policy = UNKNOWN then Segfault
                 else Value (policy\<lparr>constraints :=
                                      constraints policy OR PF_CONSTRAINT_RESULT_INVERSE\<rparr>)))
      else Value policy)"

text \<open>The blocks for the two boolean keys.\<close>

definition load_boolean ::
  "GKeyFile \<Rightarrow> string \<Rightarrow> string \<Rightarrow> (bool \<Rightarrow> Policy \<Rightarrow> Policy) \<Rightarrow> 32 word \<Rightarrow> Policy
     \<Rightarrow> Policy outcome"
where
  "load_boolean file section_id key store flag policy =
     (if g_key_file_has_key file section_id key then
        (case g_key_file_get_boolean file section_id key of
           None \<Rightarrow> Null
         | Some b \<Rightarrow>
             Value ((store b policy)\<lparr>constraints := constraints (store b policy) OR flag\<rparr>))
      else Value policy)"

text \<open>\<open>policy_load\<close>: the blocks in the order of the source.\<close>

definition policy_load :: "libpolkit \<Rightarrow> GKeyFile \<Rightarrow> string \<Rightarrow> Policy outcome" where
  "policy_load lib file section_id =
     (if \<not> g_key_file_has_group file section_id then Null
      else
        and_then (load_string_list file section_id ''Actions''
                    (\<lambda>l p. p\<lparr>actions := l\<rparr>) PF_CONSTRAINT_ACTIONS
                    (policy_new0 lib section_id)) (\<lambda>policy.
        and_then (load_string_list file section_id ''ActionContains''
                    (\<lambda>l p. p\<lparr>action_contains := l\<rparr>) PF_CONSTRAINT_ACTION_CONTAINS policy)
          (\<lambda>policy.
        and_then (load_string_list file section_id ''InUnixGroups''
                    (\<lambda>l p. p\<lparr>unix_groups := l\<rparr>) PF_CONSTRAINT_UNIX_GROUPS policy) (\<lambda>policy.
        and_then (load_string_list file section_id ''InNetGroups''
                    (\<lambda>l p. p\<lparr>net_groups := l\<rparr>) PF_CONSTRAINT_NET_GROUPS policy) (\<lambda>policy.
        and_then (load_result lib file section_id policy) (\<lambda>policy.
        and_then (load_result_inverse lib file section_id policy) (\<lambda>policy.
        and_then (load_string_list file section_id ''InUserNames''
                    (\<lambda>l p. p\<lparr>unix_names := l\<rparr>) PF_CONSTRAINT_UNIX_NAMES policy) (\<lambda>policy.
        and_then (load_boolean file section_id ''SubjectActive''
                    (\<lambda>b p. p\<lparr>require_active := b\<rparr>) PF_CONSTRAINT_SUBJECT_ACTIVE policy)
          (\<lambda>policy.
        and_then (load_boolean file section_id ''SubjectLocal''
                    (\<lambda>b p. p\<lparr>require_local := b\<rparr>) PF_CONSTRAINT_SUBJECT_LOCAL policy)
          (\<lambda>policy.
        Value policy))))))))))"

text \<open>
  The loop of \<open>policy_file_load_rules\<close> over the section names: \<open>Null\<close> is the FALSE
  result, a value is the chain that \<open>*target\<close> heads.
\<close>

fun load_sections :: "libpolkit \<Rightarrow> GKeyFile \<Rightarrow> string list \<Rightarrow> Policy list outcome" where
  "load_sections lib keyfile [] = Value []"
| "load_sections lib keyfile (s # ss) =
     and_then (policy_load lib keyfile (g_strstrip s)) (\<lambda>p.
     and_then (load_sections lib keyfile ss) (\<lambda>ps.
     Value (p # ps)))"

definition policy_file_load_rules ::
  "libpolkit \<Rightarrow> GKeyFile \<Rightarrow> string \<Rightarrow> Policy list outcome"
where
  "policy_file_load_rules lib keyfile section =
     (case g_key_file_get_string_list keyfile POLICY_SECTION section of
        None \<Rightarrow> Null
      | Some sections \<Rightarrow> load_sections lib keyfile sections)"

text \<open>
  \<open>policy_file_new_from_path\<close>.  Its argument is what \<open>g_key_file_load_from_file\<close>
  made of the path (\<open>None\<close> when it fails and sets \<open>*err\<close>).  The function returns NULL
  in two ways: with \<open>*err\<close> set by GLib, or with \<open>*err\<close> left untouched.
\<close>

datatype compile_result =
    Compiled PolicyFile
  | Null_with_error
  | Null_without_error
  | Compile_segfault

definition policy_file_new_from_path :: "libpolkit \<Rightarrow> GKeyFile option \<Rightarrow> compile_result" where
  "policy_file_new_from_path lib loaded =
     (case loaded of
        None \<Rightarrow> Null_with_error
      | Some keyf \<Rightarrow>
          (let ret = \<lparr> normal = [], admin = [] \<rparr>;
               has_rules = False
           in
           case (if g_key_file_has_key keyf POLICY_SECTION ''Rules''
                 then and_then (policy_file_load_rules lib keyf ''Rules'')
                        (\<lambda>ps. Value (ret\<lparr>normal := ps\<rparr>, True))
                 else Value (ret, has_rules)) of
             Segfault \<Rightarrow> Compile_segfault
           | Null \<Rightarrow> Null_without_error
           | Value (ret, has_rules) \<Rightarrow>
               (case (if g_key_file_has_key keyf POLICY_SECTION ''AdminRules''
                      then and_then (policy_file_load_rules lib keyf ''AdminRules'')
                             (\<lambda>ps. Value (ret\<lparr>admin := ps\<rparr>, True))
                      else Value (ret, has_rules)) of
                  Segfault \<Rightarrow> Compile_segfault
                | Null \<Rightarrow> Null_without_error
                | Value (ret, has_rules) \<Rightarrow>
                    if \<not> has_rules then Null_without_error else Compiled ret)))"

section \<open>The authority (polkitbackendkeyfileauthority.c)\<close>

text \<open>
  \<open>rules_file_name_cmp\<close>: \<open>None\<close> when one of the three \<open>g_assert\<close>s fails (a path
  without a slash, or two equal paths), which aborts the process.
\<close>

definition rules_file_name_cmp :: "string \<Rightarrow> string \<Rightarrow> int option" where
  "rules_file_name_cmp a b =
     (case (strrchr_after a CHR ''/'', strrchr_after b CHR ''/'') of
        (Some a_base, Some b_base) \<Rightarrow>
          (let ret = strcmp a_base b_base in
           if ret = 0 then
             (let ret = strcmp a b in if ret \<noteq> 0 then Some ret else None)
           else Some ret)
      | _ \<Rightarrow> None)"

text \<open>
  \<open>g_list_sort\<close> with a comparison function that may abort.  GLib sorts by merging; the
  model inserts.  The comparison above aborts on two equal paths and is a strict linear
  order otherwise, so that the sorted arrangement is unique and both procedures return
  it.
\<close>

fun sort_insert :: "('a \<Rightarrow> 'a \<Rightarrow> int option) \<Rightarrow> 'a \<Rightarrow> 'a list \<Rightarrow> 'a list option" where
  "sort_insert cmp x [] = Some [x]"
| "sort_insert cmp x (y # ys) =
     (case cmp x y of
        None \<Rightarrow> None
      | Some c \<Rightarrow>
          if c \<le> 0 then Some (x # y # ys)
          else (case sort_insert cmp x ys of None \<Rightarrow> None | Some r \<Rightarrow> Some (y # r)))"

fun g_list_sort :: "('a \<Rightarrow> 'a \<Rightarrow> int option) \<Rightarrow> 'a list \<Rightarrow> 'a list option" where
  "g_list_sort cmp [] = Some []"
| "g_list_sort cmp (x # xs) =
     (case g_list_sort cmp xs of None \<Rightarrow> None | Some s \<Rightarrow> sort_insert cmp x s)"

text \<open>
  The file system as the loader sees it: \<open>g_dir_open\<close> with the names that
  \<open>g_dir_read_name\<close> then yields (\<open>None\<close> when the directory cannot be opened), and
  \<open>g_key_file_load_from_file\<close> on a path.
\<close>

record filesystem =
  g_dir_read :: "string \<Rightarrow> string list option"
  g_key_file_load_from_file :: "string \<Rightarrow> GKeyFile option"

text \<open>
  The private struct of the authority: the directories (NULL is \<open>[]\<close>; the monitors play
  no part in loading or evaluation) and the chain of policy files (NULL is \<open>[]\<close>).
\<close>

record authority =
  rules_dirs :: "string list"
  policy :: "PolicyFile list"

text \<open>The first loop of \<open>load_rules\<close>: the paths of the rule files, prepended as found.\<close>

definition collect_names :: "string \<Rightarrow> string list \<Rightarrow> string list \<Rightarrow> string list" where
  "collect_names dir_name names files =
     fold (\<lambda>name files.
             if g_str_has_suffix name ''.keyrules'' then (dir_name @ ''/'' @ name) # files
             else files)
       names files"

definition collect_files :: "filesystem \<Rightarrow> string list \<Rightarrow> string list" where
  "collect_files fs dirs =
     fold (\<lambda>dir_name files.
             case g_dir_read fs dir_name of
               None \<Rightarrow> files
             | Some names \<Rightarrow> collect_names dir_name names files)
       dirs []"

text \<open>
  The second loop of \<open>load_rules\<close>.  \<open>lastp\<close> tells whether \<open>last\<close> is non-NULL, the
  last argument is \<open>authority->priv->policy\<close>.  When \<open>policy_file_new_from_path\<close>
  returns NULL without an error, the log call reads \<open>err->message\<close> through a NULL
  pointer: the model ends with \<open>None\<close>, as for a failed assertion and for a compiler
  that did not return.
\<close>

fun link_files ::
  "libpolkit \<Rightarrow> filesystem \<Rightarrow> string list \<Rightarrow> bool \<Rightarrow> PolicyFile list \<Rightarrow> PolicyFile list option"
where
  "link_files lib fs [] lastp pol = Some pol"
| "link_files lib fs (filename # l) lastp pol =
     (case policy_file_new_from_path lib (g_key_file_load_from_file fs filename) of
        Null_with_error \<Rightarrow> link_files lib fs l lastp pol
      | Null_without_error \<Rightarrow> None
      | Compile_segfault \<Rightarrow> None
      | Compiled file \<Rightarrow>
          if lastp then link_files lib fs l True (pol @ [file])
          else link_files lib fs l True [file])"

definition load_rules :: "libpolkit \<Rightarrow> filesystem \<Rightarrow> authority \<Rightarrow> authority option" where
  "load_rules lib fs auth =
     (case g_list_sort rules_file_name_cmp (collect_files fs (rules_dirs auth)) of
        None \<Rightarrow> None
      | Some files \<Rightarrow>
          (case link_files lib fs files False (policy auth) of
             None \<Rightarrow> None
           | Some pol \<Rightarrow> Some (auth\<lparr>policy := pol\<rparr>)))"

text \<open>\<open>reload_rules\<close>: the old chain is freed and the pointer cleared, then the loader runs.\<close>

definition reload_rules :: "libpolkit \<Rightarrow> filesystem \<Rightarrow> authority \<Rightarrow> authority option" where
  "reload_rules lib fs auth = load_rules lib fs (auth\<lparr>policy := []\<rparr>)"

subsection \<open>Preparing the context\<close>

text \<open>
  The subjects that \<open>polkit_backend_keyfile_internal_prepare_context\<close> tells apart, and the
  lookups of the operating system that it makes.  \<open>getgrouplist\<close> is \<open>None\<close> when the C
  function returns a negative number.
\<close>

datatype PolkitSubject =
    UnixProcess "32 word"
  | SystemBusName string
  | OtherSubject

record os_lookup =
  polkit_system_bus_name_get_process_sync :: "string \<Rightarrow> 32 word option"
  getpwuid :: "32 word \<Rightarrow> (string \<times> 32 word) option"
  getgrouplist :: "string \<Rightarrow> 32 word \<Rightarrow> 32 word list option"
  getgrgid :: "32 word \<Rightarrow> string option"

text \<open>\<open>g_strdup_printf ("%d", (gint) n)\<close>\<close>

function string_of_nat :: "nat \<Rightarrow> string" where
  "string_of_nat n =
     (if n < 10 then [char_of (48 + n)]
      else string_of_nat (n div 10) @ [char_of (48 + n mod 10)])"
  by pat_completeness auto
termination
  by (relation "measure id") auto

declare string_of_nat.simps [simp del]

definition printf_d :: "32 word \<Rightarrow> string" where
  "printf_d n =
     (if sint n < 0 then CHR ''-'' # string_of_nat (nat (- sint n))
      else string_of_nat (nat (sint n)))"

datatype prepare_result =
    Assertion_failed
  | Prepare_failed
  | Prepared PolicyContext

definition group_names :: "os_lookup \<Rightarrow> 32 word list \<Rightarrow> string list" where
  "group_names os gids =
     map (\<lambda>gid. case getgrgid os gid of None \<Rightarrow> printf_d gid | Some gr_name \<Rightarrow> gr_name) gids"

definition polkit_backend_keyfile_internal_prepare_context ::
  "os_lookup \<Rightarrow> PolkitSubject \<Rightarrow> PolkitIdentity \<Rightarrow> bool \<Rightarrow> bool \<Rightarrow> prepare_result"
where
  "polkit_backend_keyfile_internal_prepare_context os subject user_for_subject is_local is_active =
     (case (case subject of
              UnixProcess pid \<Rightarrow> Prepared \<lparr> subject_is_local = is_local,
                                            subject_is_active = is_active,
                                            groups = [], username = [] \<rparr>
            | SystemBusName name \<Rightarrow>
                (case polkit_system_bus_name_get_process_sync os name of
                   None \<Rightarrow> Prepare_failed
                 | Some pid \<Rightarrow> Prepared \<lparr> subject_is_local = is_local,
                                          subject_is_active = is_active,
                                          groups = [], username = [] \<rparr>)
            | OtherSubject \<Rightarrow> Assertion_failed) of
        Assertion_failed \<Rightarrow> Assertion_failed
      | Prepare_failed \<Rightarrow> Prepare_failed
      | Prepared context \<Rightarrow>
          (case user_for_subject of
             UnixUser uid \<Rightarrow>
               (case getpwuid os uid of
                  None \<Rightarrow> Prepared (context\<lparr>username := printf_d uid\<rparr>)
                | Some (pw_name, pw_gid) \<Rightarrow>
                    (case getgrouplist os pw_name pw_gid of
                       None \<Rightarrow> Prepared (context\<lparr>username := pw_name\<rparr>)
                     | Some gids \<Rightarrow>
                         Prepared (context\<lparr>username := pw_name,
                                            groups := group_names os gids\<rparr>)))
           | _ \<Rightarrow> Assertion_failed))"

subsection \<open>Administrator identities\<close>

fun polkit_backend_keyfile_internal_build_admin ::
  "libpolkit \<Rightarrow> string \<Rightarrow> PolkitIdentity list \<Rightarrow> string list \<Rightarrow> string \<Rightarrow> PolkitIdentity list"
where
  "polkit_backend_keyfile_internal_build_admin lib wheel ret [] id_prefix = ret"
| "polkit_backend_keyfile_internal_build_admin lib wheel ret (g # grouping) id_prefix =
     (let match_item = g_strstrip g;
          identifier =
            (if g_str_equal match_item POLICY_MATCH_WHEEL then wheel else match_item);
          nom = id_prefix @ '':'' @ identifier
      in case polkit_identity_from_string lib nom of
           None \<Rightarrow> polkit_backend_keyfile_internal_build_admin lib wheel ret grouping id_prefix
         | Some i \<Rightarrow>
             polkit_backend_keyfile_internal_build_admin lib wheel (i # ret) grouping id_prefix)"

text \<open>The body of the inner loop of the harvest, for one admin policy.\<close>

definition admin_of_policy ::
  "libpolkit \<Rightarrow> string \<Rightarrow> Policy \<Rightarrow> PolkitIdentity list \<Rightarrow> PolkitIdentity list"
where
  "admin_of_policy lib wheel pol ret =
     (let ret = (if has_constraint pol PF_CONSTRAINT_UNIX_GROUPS
                 then polkit_backend_keyfile_internal_build_admin lib wheel ret
                        (unix_groups pol) ''unix-group''
                 else ret);
          ret = (if has_constraint pol PF_CONSTRAINT_UNIX_NAMES
                 then polkit_backend_keyfile_internal_build_admin lib wheel ret
                        (unix_names pol) ''unix-user''
                 else ret);
          ret = (if has_constraint pol PF_CONSTRAINT_NET_GROUPS
                 then polkit_backend_keyfile_internal_build_admin lib wheel ret
                        (net_groups pol) ''unix-netgroup''
                 else ret)
      in ret)"

text \<open>The two nested loops over the files and their admin chains.\<close>

definition harvest :: "libpolkit \<Rightarrow> string \<Rightarrow> PolicyFile list \<Rightarrow> PolkitIdentity list" where
  "harvest lib wheel files =
     fold (\<lambda>file ret. fold (admin_of_policy lib wheel) (admin file) ret) files []"

text \<open>
  \<open>polkit_backend_keyfile_authority_get_admin_auth_identities\<close>; \<open>None\<close> when an assertion
  of the context preparation aborts the process.
\<close>

definition polkit_backend_keyfile_authority_get_admin_auth_identities ::
  "libpolkit \<Rightarrow> string \<Rightarrow> os_lookup \<Rightarrow> authority \<Rightarrow> PolkitSubject \<Rightarrow> PolkitIdentity \<Rightarrow> bool \<Rightarrow> bool
     \<Rightarrow> PolkitIdentity list option"
where
  "polkit_backend_keyfile_authority_get_admin_auth_identities lib wheel os auth subject
       user_for_subject is_local is_active =
     (case polkit_backend_keyfile_internal_prepare_context os subject user_for_subject
             is_local is_active of
        Assertion_failed \<Rightarrow> None
      | Prepare_failed \<Rightarrow> Some [UnixUser 0]
      | Prepared context \<Rightarrow>
          (let ret = rev (harvest lib wheel (policy auth))
           in Some (if ret = [] then [UnixUser 0] else ret)))"

subsection \<open>The authorization check\<close>

text \<open>
  \<open>polkit_backend_keyfile_authority_check_authorization_sync\<close>; \<open>None\<close> when the process
  aborts: on a failed assertion of the context preparation, or when \<open>policy_file_test\<close>
  is called on the NULL chain and reads \<open>file->rules\<close>.
\<close>

definition polkit_backend_keyfile_authority_check_authorization_sync ::
  "string \<Rightarrow> os_lookup \<Rightarrow> authority \<Rightarrow> PolkitSubject \<Rightarrow> PolkitIdentity \<Rightarrow> bool \<Rightarrow> bool \<Rightarrow> string
     \<Rightarrow> PolkitImplicitAuthorization \<Rightarrow> PolkitImplicitAuthorization option"
where
  "polkit_backend_keyfile_authority_check_authorization_sync wheel os auth subject
       user_for_subject is_local is_active action_id implicit =
     (case polkit_backend_keyfile_internal_prepare_context os subject user_for_subject
             is_local is_active of
        Assertion_failed \<Rightarrow> None
      | Prepare_failed \<Rightarrow> Some NOT_AUTHORIZED
      | Prepared context \<Rightarrow>
          (case policy auth of
             [] \<Rightarrow> None
           | file # nxt \<Rightarrow>
               (let ret = policy_file_test wheel file nxt action_id context
                in if ret = UNKNOWN then Some implicit else Some ret)))"

section \<open>Notions used to state the properties\<close>

text \<open>
  What \<open>policy_test\<close> returns when it passes the request along: the verdict of the rest
  of the chain, or \<open>UNKNOWN\<close> at the end of the chain.
\<close>

definition next_in_chain ::
  "string \<Rightarrow> Policy list \<Rightarrow> string \<Rightarrow> PolicyContext \<Rightarrow> PolkitImplicitAuthorization"
where
  "next_in_chain wheel nxt action_id c =
     (case nxt of [] \<Rightarrow> UNKNOWN | p # ps \<Rightarrow> policy_test wheel p ps action_id c)"

text \<open>The substitution of the wheel alias in a (trimmed) entry.\<close>

definition wheel_subst :: "string \<Rightarrow> string \<Rightarrow> string" where
  "wheel_subst wheel entry = (if entry = ''%sudo%'' then wheel else entry)"

text \<open>
  The four constraints other than the action, in the words of the specification, with entries
  trimmed as the code trims them: a constraint that is not declared passes.
\<close>

definition subject_active_passes :: "Policy \<Rightarrow> PolicyContext \<Rightarrow> bool" where
  "subject_active_passes p c =
     (\<not> has_constraint p PF_CONSTRAINT_SUBJECT_ACTIVE \<or> subject_is_active c = require_active p)"

definition subject_local_passes :: "Policy \<Rightarrow> PolicyContext \<Rightarrow> bool" where
  "subject_local_passes p c =
     (\<not> has_constraint p PF_CONSTRAINT_SUBJECT_LOCAL \<or> subject_is_local c = require_local p)"

definition unix_groups_passes :: "string \<Rightarrow> Policy \<Rightarrow> PolicyContext \<Rightarrow> bool" where
  "unix_groups_passes wheel p c =
     (\<not> has_constraint p PF_CONSTRAINT_UNIX_GROUPS
      \<or> (\<exists>e\<in>set (unix_groups p). \<exists>g\<in>set (groups c). wheel_subst wheel (g_strstrip e) = g))"

definition unix_names_passes :: "Policy \<Rightarrow> PolicyContext \<Rightarrow> bool" where
  "unix_names_passes p c =
     (\<not> has_constraint p PF_CONSTRAINT_UNIX_NAMES
      \<or> (\<exists>e\<in>set (unix_names p). g_strstrip e = username c))"

text \<open>
  Two rules that differ at most in their \<open>InNetGroups\<close> entries and in the constraint bit
  \<open>PF_CONSTRAINT_NET_GROUPS\<close>; two files whose normal chains are such rules, pairwise.
\<close>

definition same_but_netgroups :: "Policy \<Rightarrow> Policy \<Rightarrow> bool" where
  "same_but_netgroups p q \<longleftrightarrow>
     policy_id p = policy_id q \<and> actions p = actions q
     \<and> action_contains p = action_contains q \<and> unix_groups p = unix_groups q
     \<and> unix_names p = unix_names q \<and> require_active p = require_active q
     \<and> require_local p = require_local q \<and> response p = response q
     \<and> response_inverse p = response_inverse q
     \<and> (constraints p AND NOT PF_CONSTRAINT_NET_GROUPS)
         = (constraints q AND NOT PF_CONSTRAINT_NET_GROUPS)"

definition same_normal_but_netgroups :: "PolicyFile \<Rightarrow> PolicyFile \<Rightarrow> bool" where
  "same_normal_but_netgroups f g = list_all2 same_but_netgroups (normal f) (normal g)"

text \<open>The verdict of the normal chain of one file, as \<open>policy_file_test\<close> computes it.\<close>

definition normal_chain_test ::
  "string \<Rightarrow> string \<Rightarrow> PolicyContext \<Rightarrow> PolicyFile \<Rightarrow> PolkitImplicitAuthorization"
where
  "normal_chain_test wheel action_id c file =
     (case normal file of
        [] \<Rightarrow> UNKNOWN
      | p # ps \<Rightarrow> policy_test wheel p ps action_id c)"

text \<open>The order in which \<open>rules_file_name_cmp\<close> puts two paths.\<close>

definition path_before :: "string \<Rightarrow> string \<Rightarrow> bool" where
  "path_before a b = (case rules_file_name_cmp a b of None \<Rightarrow> False | Some c \<Rightarrow> c < 0)"

text \<open>The files among the given paths that compile, in the order of the paths.\<close>

definition compiled_files :: "libpolkit \<Rightarrow> filesystem \<Rightarrow> string list \<Rightarrow> PolicyFile list" where
  "compiled_files lib fs files =
     concat (map (\<lambda>filename.
                    case policy_file_new_from_path lib (g_key_file_load_from_file fs filename) of
                      Compiled file \<Rightarrow> [file]
                    | _ \<Rightarrow> [])
               files)"

section \<open>Concrete inputs\<close>

text \<open>
  Modelled from the spec: the vocabulary of verdict names (\<open>yes\<close>, \<open>no\<close>, \<open>auth_self\<close>,
  ...) that libpolkit's \<open>polkit_implicit_authorization_from_string\<close> recognises, which is
  not among the sources.  This library instance is used for the concrete inputs only; the
  general statements hold for every instance.  Its identities are those of a system with
  the user \<open>root\<close> and the group \<open>wheel\<close>.
\<close>

definition libpolkit_example :: libpolkit where
  "libpolkit_example =
     \<lparr> polkit_implicit_authorization_from_string =
         (\<lambda>s. if s = ''no'' then Some NOT_AUTHORIZED
              else if s = ''auth_self'' then Some AUTHENTICATION_REQUIRED
              else if s = ''auth_admin'' then Some ADMINISTRATOR_AUTHENTICATION_REQUIRED
              else if s = ''auth_self_keep'' then Some AUTHENTICATION_REQUIRED_RETAINED
              else if s = ''auth_admin_keep''
                then Some ADMINISTRATOR_AUTHENTICATION_REQUIRED_RETAINED
              else if s = ''yes'' then Some AUTHORIZED
              else None),
       zero_implicit_authorization = NOT_AUTHORIZED,
       polkit_identity_from_string =
         (\<lambda>s. if s = ''unix-user:root'' then Some (UnixUser 0)
              else if s = ''unix-group:wheel'' then Some (UnixGroup 10)
              else if take 14 s = ''unix-netgroup:'' then Some (UnixNetgroup (drop 14 s))
              else None) \<rparr>"

text \<open>
  A key file given by its entries (group, key, list items of the value).  A string or
  boolean value is an entry with one item.
\<close>

definition key_file_of :: "(string \<times> string \<times> string list) list \<Rightarrow> GKeyFile" where
  "key_file_of entries =
     \<lparr> g_key_file_has_group = (\<lambda>g. g \<in> set (map fst entries)),
       g_key_file_has_key = (\<lambda>g k. (g, k) \<in> set (map (\<lambda>(g, k, v). (g, k)) entries)),
       g_key_file_get_string_list =
         (\<lambda>g k. map_of (map (\<lambda>(g, k, v). ((g, k), v)) entries) (g, k)),
       g_key_file_get_string =
         (\<lambda>g k. case map_of (map (\<lambda>(g, k, v). ((g, k), v)) entries) (g, k) of
                   Some [x] \<Rightarrow> Some x
                 | _ \<Rightarrow> None),
       g_key_file_get_boolean =
         (\<lambda>g k. case map_of (map (\<lambda>(g, k, v). ((g, k), v)) entries) (g, k) of
                   Some [x] \<Rightarrow>
                     if x = ''true'' then Some True
                     else if x = ''false'' then Some False
                     else None
                 | _ \<Rightarrow> None) \<rparr>"

definition blank_rule :: Policy where
  "blank_rule =
     \<lparr> policy_id = ''rule'', actions = [], action_contains = [], unix_groups = [],
       unix_names = [], net_groups = [], require_active = False, require_local = False,
       response = NOT_AUTHORIZED, response_inverse = NOT_AUTHORIZED, constraints = 0 \<rparr>"

text \<open>\<open>Actions=*\<close>, \<open>Result=yes\<close>\<close>

definition rule_grant_all :: Policy where
  "rule_grant_all =
     blank_rule\<lparr> actions := [''*''], response := AUTHORIZED,
                 constraints := PF_CONSTRAINT_ACTIONS OR PF_CONSTRAINT_RESULT \<rparr>"

text \<open>
  \<open>Actions=org.example.action\<close>, \<open>SubjectActive=true\<close>, \<open>Result=yes\<close>,
  \<open>ResultInverse=no\<close>
\<close>

definition rule_active :: Policy where
  "rule_active =
     blank_rule\<lparr> actions := [''org.example.action''], require_active := True,
                 response := AUTHORIZED, response_inverse := NOT_AUTHORIZED,
                 constraints := PF_CONSTRAINT_ACTIONS OR PF_CONSTRAINT_SUBJECT_ACTIVE
                                OR PF_CONSTRAINT_RESULT OR PF_CONSTRAINT_RESULT_INVERSE \<rparr>"

text \<open>
  \<open>Actions=org.example.action\<close>, \<open>SubjectLocal=true\<close>, \<open>Result=yes\<close>,
  \<open>ResultInverse=no\<close>
\<close>

definition rule_local :: Policy where
  "rule_local =
     blank_rule\<lparr> actions := [''org.example.action''], require_local := True,
                 response := AUTHORIZED, response_inverse := NOT_AUTHORIZED,
                 constraints := PF_CONSTRAINT_ACTIONS OR PF_CONSTRAINT_SUBJECT_LOCAL
                                OR PF_CONSTRAINT_RESULT OR PF_CONSTRAINT_RESULT_INVERSE \<rparr>"

text \<open>No action key at all: \<open>InUnixGroups=users\<close>, \<open>Result=yes\<close>, \<open>ResultInverse=no\<close>\<close>

definition rule_no_action :: Policy where
  "rule_no_action =
     blank_rule\<lparr> unix_groups := [''users''], response := AUTHORIZED,
                 response_inverse := NOT_AUTHORIZED,
                 constraints := PF_CONSTRAINT_UNIX_GROUPS OR PF_CONSTRAINT_RESULT
                                OR PF_CONSTRAINT_RESULT_INVERSE \<rparr>"

text \<open>\<open>Actions=a; org.example.action\<close>: the second list item keeps its leading blank.\<close>

definition rule_spaced_action :: Policy where
  "rule_spaced_action =
     blank_rule\<lparr> actions := [''a'', '' org.example.action''], response := AUTHORIZED,
                 constraints := PF_CONSTRAINT_ACTIONS OR PF_CONSTRAINT_RESULT \<rparr>"

text \<open>\<open>Actions=org.example.*action\<close>, \<open>Result=yes\<close>\<close>

definition rule_star_inside :: Policy where
  "rule_star_inside =
     blank_rule\<lparr> actions := [''org.example.*action''], response := AUTHORIZED,
                 constraints := PF_CONSTRAINT_ACTIONS OR PF_CONSTRAINT_RESULT \<rparr>"

text \<open>\<open>Actions=*\<close>, \<open>InUnixGroups=adm; wheel\<close>, \<open>Result=yes\<close>\<close>

definition rule_spaced_group :: Policy where
  "rule_spaced_group =
     blank_rule\<lparr> actions := [''*''], unix_groups := [''adm'', '' wheel''],
                 response := AUTHORIZED,
                 constraints := PF_CONSTRAINT_ACTIONS OR PF_CONSTRAINT_UNIX_GROUPS
                                OR PF_CONSTRAINT_RESULT \<rparr>"

text \<open>\<open>Actions=*\<close>, \<open>InUnixGroups=%sudo%\<close>, \<open>Result=yes\<close>\<close>

definition rule_sudo :: Policy where
  "rule_sudo =
     blank_rule\<lparr> actions := [''*''], unix_groups := [''%sudo%''], response := AUTHORIZED,
                 constraints := PF_CONSTRAINT_ACTIONS OR PF_CONSTRAINT_UNIX_GROUPS
                                OR PF_CONSTRAINT_RESULT \<rparr>"

text \<open>An admin rule: \<open>InNetGroups=ops\<close>\<close>

definition rule_netgroup :: Policy where
  "rule_netgroup =
     blank_rule\<lparr> actions := [''*''], net_groups := [''ops''], response := AUTHORIZED,
                 constraints := PF_CONSTRAINT_ACTIONS OR PF_CONSTRAINT_NET_GROUPS
                                OR PF_CONSTRAINT_RESULT \<rparr>"

definition ctx_alice :: PolicyContext where
  "ctx_alice =
     \<lparr> subject_is_local = True, subject_is_active = True, groups = [''alice'', ''users''],
       username = ''alice'' \<rparr>"

definition ctx_inactive :: PolicyContext where
  "ctx_inactive = ctx_alice\<lparr> subject_is_active := False \<rparr>"

definition ctx_remote :: PolicyContext where
  "ctx_remote = ctx_alice\<lparr> subject_is_local := False \<rparr>"

definition ctx_wheel :: PolicyContext where
  "ctx_wheel = ctx_alice\<lparr> groups := [''alice'', ''wheel''] \<rparr>"

text \<open>
  A rule file whose only rule has a valid \<open>Result\<close> and an unrecognised
  \<open>ResultInverse\<close>:
  \<^verbatim>\<open>
  [Policy]
  Rules=r1
  [r1]
  Actions=org.example.action
  Result=yes
  ResultInverse=bogus
  \<close>
\<close>

definition keyfile_bad_inverse :: GKeyFile where
  "keyfile_bad_inverse =
     key_file_of
       [(''Policy'', ''Rules'', [''r1'']),
        (''r1'', ''Actions'', [''org.example.action'']),
        (''r1'', ''Result'', [''yes'']),
        (''r1'', ''ResultInverse'', [''bogus''])]"

text \<open>The same file with the two verdict strings exchanged.\<close>

definition keyfile_bad_result :: GKeyFile where
  "keyfile_bad_result =
     key_file_of
       [(''Policy'', ''Rules'', [''r1'']),
        (''r1'', ''Actions'', [''org.example.action'']),
        (''r1'', ''Result'', [''bogus'']),
        (''r1'', ''ResultInverse'', [''yes''])]"

text \<open>
  Two directories that both hold \<open>a.keyrules\<close>: the one under \<open>/etc\<close> denies every
  action, the one under \<open>/usr\<close> grants every action.
\<close>

definition keyfile_deny :: GKeyFile where
  "keyfile_deny =
     key_file_of
       [(''Policy'', ''Rules'', [''deny'']),
        (''deny'', ''Actions'', [''*'']),
        (''deny'', ''Result'', [''no''])]"

definition keyfile_grant :: GKeyFile where
  "keyfile_grant =
     key_file_of
       [(''Policy'', ''Rules'', [''grant'']),
        (''grant'', ''Actions'', [''*'']),
        (''grant'', ''Result'', [''yes''])]"

definition file_deny :: PolicyFile where
  "file_deny =
     \<lparr> normal = [blank_rule\<lparr> policy_id := ''deny'', actions := [''*''],
                              response := NOT_AUTHORIZED,
                              constraints := PF_CONSTRAINT_ACTIONS OR PF_CONSTRAINT_RESULT \<rparr>],
       admin = [] \<rparr>"

definition file_grant :: PolicyFile where
  "file_grant =
     \<lparr> normal = [blank_rule\<lparr> policy_id := ''grant'', actions := [''*''],
                              response := AUTHORIZED,
                              constraints := PF_CONSTRAINT_ACTIONS OR PF_CONSTRAINT_RESULT \<rparr>],
       admin = [] \<rparr>"

definition fs_etc_usr :: filesystem where
  "fs_etc_usr =
     \<lparr> g_dir_read =
         (\<lambda>d. if d = ''/etc'' then Some [''a.keyrules'']
              else if d = ''/usr'' then Some [''a.keyrules'']
              else None),
       g_key_file_load_from_file =
         (\<lambda>path. if path = ''/etc/a.keyrules'' then Some keyfile_deny
                 else if path = ''/usr/a.keyrules'' then Some keyfile_grant
                 else None) \<rparr>"

text \<open>
  The same two files among others: \<open>/etc\<close> also holds a file that is not a rule file,
  \<open>/usr\<close> also holds \<open>b.keyrules\<close>.
\<close>

definition fs_etc_usr_more :: filesystem where
  "fs_etc_usr_more =
     \<lparr> g_dir_read =
         (\<lambda>d. if d = ''/etc'' then Some [''README'', ''a.keyrules'']
              else if d = ''/usr'' then Some [''b.keyrules'', ''a.keyrules'']
              else None),
       g_key_file_load_from_file =
         (\<lambda>path. if path = ''/etc/a.keyrules'' then Some keyfile_deny
                 else if path = ''/usr/a.keyrules'' then Some keyfile_grant
                 else if path = ''/usr/b.keyrules'' then Some keyfile_grant
                 else None) \<rparr>"

text \<open>A file system on which no rules directory can be opened.\<close>

definition fs_unreadable :: filesystem where
  "fs_unreadable = \<lparr> g_dir_read = (\<lambda>d. None), g_key_file_load_from_file = (\<lambda>path. None) \<rparr>"

text \<open>A system on which the process behind a bus name cannot be found.\<close>

definition os_example :: os_lookup where
  "os_example =
     \<lparr> polkit_system_bus_name_get_process_sync = (\<lambda>name. None),
       getpwuid = (\<lambda>uid. if uid = 1000 then Some (''alice'', 1000) else None),
       getgrouplist = (\<lambda>name gid. Some [gid, 100]),
       getgrgid = (\<lambda>gid. if gid = 1000 then Some ''alice''
                         else if gid = 100 then Some ''users'' else None) \<rparr>"

section \<open>Evaluation: the loops and the structure of \<open>policy_test\<close>\<close>

lemmas PF_CONSTRAINT_defs =
  PF_CONSTRAINT_ACTIONS_def PF_CONSTRAINT_ACTION_CONTAINS_def PF_CONSTRAINT_SUBJECT_ACTIVE_def
  PF_CONSTRAINT_SUBJECT_LOCAL_def PF_CONSTRAINT_UNIX_GROUPS_def PF_CONSTRAINT_UNIX_NAMES_def
  PF_CONSTRAINT_NET_GROUPS_def PF_CONSTRAINT_RESULT_def PF_CONSTRAINT_RESULT_INVERSE_def

lemmas g_strstrip_defs = g_strstrip_def g_strchomp_def g_strchug_def g_ascii_isspace_def

lemmas example_rule_defs =
  blank_rule_def rule_grant_all_def rule_active_def rule_local_def rule_no_action_def
  rule_spaced_action_def rule_star_inside_def rule_spaced_group_def rule_sudo_def
  rule_netgroup_def

lemmas example_ctx_defs = ctx_alice_def ctx_inactive_def ctx_remote_def ctx_wheel_def

text \<open>
  \<open>g_strstrip\<close> works in place, so the first evaluation leaves the stored entries of a
  rule trimmed.  Trimming twice is trimming once: the model, which keeps the entries as
  they were loaded and trims them at every use, computes the same verdicts.
\<close>

lemma g_strchomp_keeps_head:
  assumes "t \<noteq> []" and "\<not> g_ascii_isspace (hd t)"
  shows "g_strchomp t \<noteq> [] \<and> hd (g_strchomp t) = hd t"
proof -
  obtain x xs where t: "t = x # xs" using assms(1) by (cases t) auto
  have x: "\<not> g_ascii_isspace x" using assms(2) t by simp
  have "\<exists>zs. dropWhile g_ascii_isspace (rev xs @ [x]) = zs @ [x]"
  proof (cases "\<forall>y\<in>set (rev xs). g_ascii_isspace y")
    case True
    then have "dropWhile g_ascii_isspace (rev xs @ [x]) = dropWhile g_ascii_isspace [x]"
      by (intro dropWhile_append2) auto
    then show ?thesis using x by simp
  next
    case False
    then obtain y where "y \<in> set (rev xs)" "\<not> g_ascii_isspace y" by auto
    then have "dropWhile g_ascii_isspace (rev xs @ [x])
                 = dropWhile g_ascii_isspace (rev xs) @ [x]"
      by (rule dropWhile_append1)
    then show ?thesis by blast
  qed
  then obtain zs where "dropWhile g_ascii_isspace (rev t) = zs @ [x]"
    using t by auto
  then show ?thesis
    by (simp add: g_strchomp_def t)
qed

lemma g_strchug_head:
  "g_strchug s \<noteq> [] \<Longrightarrow> \<not> g_ascii_isspace (hd (g_strchug s))"
  unfolding g_strchug_def by (rule hd_dropWhile)

lemma g_strchug_fixed:
  "t = [] \<or> \<not> g_ascii_isspace (hd t) \<Longrightarrow> g_strchug t = t"
  by (cases t) (auto simp: g_strchug_def)

lemma g_strchomp_idem: "g_strchomp (g_strchomp t) = g_strchomp t"
  by (simp add: g_strchomp_def)

lemma g_strstrip_idem: "g_strstrip (g_strstrip s) = g_strstrip s"
proof -
  let ?t = "g_strchug s"
  have "g_strchug (g_strchomp ?t) = g_strchomp ?t"
  proof (cases "?t = []")
    case True
    then show ?thesis by (simp add: g_strchomp_def) (simp add: g_strchug_def)
  next
    case False
    then have "\<not> g_ascii_isspace (hd ?t)" by (rule g_strchug_head)
    then have "g_strchomp ?t \<noteq> [] \<and> hd (g_strchomp ?t) = hd ?t"
      using False g_strchomp_keeps_head by blast
    then show ?thesis
      using \<open>\<not> g_ascii_isspace (hd ?t)\<close> by (intro g_strchug_fixed) simp
  qed
  then show ?thesis
    by (simp add: g_strstrip_def g_strchomp_idem)
qed

lemma actions_loop_iff:
  "actions_loop as a \<longleftrightarrow> (\<exists>e\<in>set as. g_strstrip e = a \<or> g_strstrip e = ''*'')"
  by (induction as) (auto simp: g_str_equal_def POLICY_MATCH_ALL_def Let_def)

lemma strstr_iff_sublist: "strstr h n \<longleftrightarrow> sublist n h"
proof (induction h)
  case Nil
  then show ?case by simp
next
  case (Cons x xs)
  have "take (length n) (x # xs) = n \<longleftrightarrow> prefix n (x # xs)"
    by (metis append_take_drop_id prefix_def append_eq_conv_conj)
  then show ?case using Cons by (auto simp: sublist_Cons_right)
qed

lemma action_contains_loop_iff:
  "action_contains_loop cs a \<longleftrightarrow> (\<exists>e\<in>set cs. sublist (g_strstrip e) a)"
  by (induction cs) (auto simp: strstr_iff_sublist Let_def)

lemma unix_groups_inner_iff:
  "unix_groups_inner wheel e gs \<longleftrightarrow> (\<exists>g\<in>set gs. wheel_subst wheel (g_strstrip e) = g)"
  by (induction gs) (auto simp: g_str_equal_def POLICY_MATCH_WHEEL_def Let_def wheel_subst_def)

lemma unix_groups_loop_iff:
  "unix_groups_loop wheel es gs t \<longleftrightarrow>
     t \<or> (\<exists>e\<in>set es. \<exists>g\<in>set gs. wheel_subst wheel (g_strstrip e) = g)"
  by (induction es arbitrary: t) (auto simp: unix_groups_inner_iff)

lemma unix_names_loop_iff:
  "unix_names_loop ns u \<longleftrightarrow> (\<exists>n\<in>set ns. g_strstrip n = u)"
  by (induction ns) (auto simp: g_str_equal_def Let_def)

lemma id_matched_iff:
  "fst (policy_test_body wheel p a c) \<longleftrightarrow>
     (has_constraint p PF_CONSTRAINT_ACTIONS \<and> actions_loop (actions p) a)
     \<or> (has_constraint p PF_CONSTRAINT_ACTION_CONTAINS
        \<and> action_contains_loop (action_contains p) a)"
  by (simp add: policy_test_body_def Let_def)

text \<open>The code after the label, with both passing-along branches written once.\<close>

lemma policy_test_step:
  "policy_test wheel p nxt a c =
     (case policy_test_body wheel p a c of
        (id_matched, conditions, resp) \<Rightarrow>
          if id_matched \<and> \<not> conditions \<and> has_constraint p PF_CONSTRAINT_RESULT_INVERSE
            then response_inverse p
          else if resp = UNKNOWN then next_in_chain wheel nxt a c else resp)"
proof (cases "policy_test_body wheel p a c")
  case (fields i co r)
  show ?thesis
  proof (cases nxt)
    case Nil
    then show ?thesis by (simp add: policy_test.simps fields next_in_chain_def)
  next
    case (Cons q qs)
    then show ?thesis by (simp add: policy_test.simps fields next_in_chain_def)
  qed
qed

lemma policy_test_body_gate:
  "policy_test_body wheel p a c =
     (if \<not> fst (policy_test_body wheel p a c) then (False, False, UNKNOWN)
      else if has_constraint p PF_CONSTRAINT_SUBJECT_ACTIVE
           \<and> subject_is_active c \<noteq> require_active p
        then (True, True, UNKNOWN)
      else if has_constraint p PF_CONSTRAINT_SUBJECT_LOCAL
              \<and> subject_is_local c \<noteq> require_local p
        then (True, False, UNKNOWN)
      else if has_constraint p PF_CONSTRAINT_UNIX_GROUPS
              \<and> \<not> unix_groups_loop wheel (unix_groups p) (groups c) False
        then (True, False, UNKNOWN)
      else if has_constraint p PF_CONSTRAINT_UNIX_NAMES
              \<and> \<not> unix_names_loop (unix_names p) (username c)
        then (True, False, UNKNOWN)
      else (True, True,
            if has_constraint p PF_CONSTRAINT_RESULT then response p else UNKNOWN))"
proof -
  define G where "G =
    (if has_constraint p PF_CONSTRAINT_ACTION_CONTAINS
          \<and> action_contains_loop (action_contains p) a
     then True
     else (has_constraint p PF_CONSTRAINT_ACTIONS \<and> actions_loop (actions p) a))"
  define R where "R =
     (if has_constraint p PF_CONSTRAINT_SUBJECT_ACTIVE
           \<and> subject_is_active c \<noteq> require_active p
        then (True, True, UNKNOWN)
      else if has_constraint p PF_CONSTRAINT_SUBJECT_LOCAL
              \<and> subject_is_local c \<noteq> require_local p
        then (True, False, UNKNOWN)
      else if has_constraint p PF_CONSTRAINT_UNIX_GROUPS
              \<and> \<not> unix_groups_loop wheel (unix_groups p) (groups c) False
        then (True, False, UNKNOWN)
      else if has_constraint p PF_CONSTRAINT_UNIX_NAMES
              \<and> \<not> unix_names_loop (unix_names p) (username c)
        then (True, False, UNKNOWN)
      else (True, True,
            if has_constraint p PF_CONSTRAINT_RESULT then response p else UNKNOWN))"
  have body: "policy_test_body wheel p a c = (if \<not> G then (False, False, UNKNOWN) else R)"
    unfolding policy_test_body_def Let_def G_def R_def by (rule refl)
  have fstR: "fst R"
    unfolding R_def by simp
  have "fst (policy_test_body wheel p a c) = G"
    using fstR by (simp add: body)
  then show ?thesis
    using body unfolding R_def by simp
qed

lemma policy_test_body_unmatched:
  "\<not> fst (policy_test_body wheel p a c) \<Longrightarrow>
     policy_test_body wheel p a c = (False, False, UNKNOWN)"
  using policy_test_body_gate [of wheel p a c] by simp

lemma policy_test_body_matched:
  "fst (policy_test_body wheel p a c) \<Longrightarrow> policy_test_body wheel p a c =
     (if has_constraint p PF_CONSTRAINT_SUBJECT_ACTIVE
           \<and> subject_is_active c \<noteq> require_active p
        then (True, True, UNKNOWN)
      else if has_constraint p PF_CONSTRAINT_SUBJECT_LOCAL
              \<and> subject_is_local c \<noteq> require_local p
        then (True, False, UNKNOWN)
      else if has_constraint p PF_CONSTRAINT_UNIX_GROUPS
              \<and> \<not> unix_groups_loop wheel (unix_groups p) (groups c) False
        then (True, False, UNKNOWN)
      else if has_constraint p PF_CONSTRAINT_UNIX_NAMES
              \<and> \<not> unix_names_loop (unix_names p) (username c)
        then (True, False, UNKNOWN)
      else (True, True,
            if has_constraint p PF_CONSTRAINT_RESULT then response p else UNKNOWN))"
  using policy_test_body_gate [of wheel p a c] by simp

lemma policy_test_unmatched:
  "\<not> fst (policy_test_body wheel r a c) \<Longrightarrow>
     policy_test wheel r nxt a c = next_in_chain wheel nxt a c"
  by (simp add: policy_test_step policy_test_body_unmatched)

text \<open>
  The outcome of a rule whose action matched.  A failing \<open>SubjectActive\<close> passes the
  request along; a failure of one of the three later checks returns the inverse verdict
  when one is declared.
\<close>

lemma policy_test_matched:
  assumes "fst (policy_test_body wheel p a c)"
  shows "policy_test wheel p nxt a c =
     (if \<not> subject_active_passes p c then next_in_chain wheel nxt a c
      else if \<not> (subject_local_passes p c \<and> unix_groups_passes wheel p c
                  \<and> unix_names_passes p c)
        then (if has_constraint p PF_CONSTRAINT_RESULT_INVERSE then response_inverse p
              else next_in_chain wheel nxt a c)
      else if has_constraint p PF_CONSTRAINT_RESULT \<and> response p \<noteq> UNKNOWN
        then response p
      else next_in_chain wheel nxt a c)"
proof -
  have g: "unix_groups_loop wheel (unix_groups p) (groups c) False \<longleftrightarrow>
        (\<exists>e\<in>set (unix_groups p). \<exists>g\<in>set (groups c). wheel_subst wheel (g_strstrip e) = g)"
    by (simp add: unix_groups_loop_iff)
  have n: "unix_names_loop (unix_names p) (username c) \<longleftrightarrow>
        (\<exists>e\<in>set (unix_names p). g_strstrip e = username c)"
    by (simp add: unix_names_loop_iff)
  show ?thesis
    unfolding policy_test_step [of wheel p nxt a c] policy_test_body_matched [OF assms]
      g n subject_active_passes_def subject_local_passes_def unix_groups_passes_def
      unix_names_passes_def
    by (simp split: if_splits)
qed

section \<open>Evaluation: the claims\<close>

text \<open>
  Claim C1 (the code departs from it).  A rule whose action matched, whose
  \<open>SubjectActive\<close> constraint fails and which declares \<open>ResultInverse=no\<close> does not
  return its inverse verdict: \<open>policy_test\<close> passes the request along, so that the
  verdict is \<open>UNKNOWN\<close> at the end of the chain and the verdict of a later rule
  otherwise.  The same rule with \<open>SubjectLocal\<close> in place of \<open>SubjectActive\<close> returns
  the inverse verdict at once.
\<close>

theorem C1_subject_active_skips_inverse:
  "policy_test ''wheel'' rule_active [] ''org.example.action'' ctx_inactive = UNKNOWN
   \<and> policy_test ''wheel'' rule_active [rule_grant_all] ''org.example.action'' ctx_inactive
       = AUTHORIZED
   \<and> response_inverse rule_active = NOT_AUTHORIZED
   \<and> has_constraint rule_active PF_CONSTRAINT_RESULT_INVERSE
   \<and> policy_test ''wheel'' rule_local [rule_grant_all] ''org.example.action'' ctx_remote
       = NOT_AUTHORIZED"
  by (simp add: policy_test.simps policy_test_body_def has_constraint_def example_rule_defs
        example_ctx_defs PF_CONSTRAINT_defs g_strstrip_defs g_str_equal_def
        POLICY_MATCH_ALL_def)

text \<open>
  Claim C5.  When a rule declares neither \<open>Actions\<close> nor \<open>ActionContains\<close>, or when its
  action test fails, \<open>policy_test\<close> on that rule is the evaluation of the next rule of the
  chain, and \<open>UNKNOWN\<close> when the rule is the last one: the verdict does not depend on the
  rule's result, inverse result or other constraints.
\<close>

theorem C5_action_test_is_gatekeeper:
  assumes "(\<not> has_constraint r PF_CONSTRAINT_ACTIONS
             \<and> \<not> has_constraint r PF_CONSTRAINT_ACTION_CONTAINS)
           \<or> \<not> fst (policy_test_body wheel r action_id c)"
  shows "policy_test wheel r nxt action_id c =
           (case nxt of [] \<Rightarrow> UNKNOWN | p # ps \<Rightarrow> policy_test wheel p ps action_id c)"
proof -
  from assms have "\<not> fst (policy_test_body wheel r action_id c)"
    by (auto simp: id_matched_iff)
  then show ?thesis
    using policy_test_unmatched [of wheel r action_id c nxt]
    by (simp add: next_in_chain_def)
qed

theorem C5_action_test_is_gatekeeper_witness:
  "(\<not> has_constraint rule_no_action PF_CONSTRAINT_ACTIONS
      \<and> \<not> has_constraint rule_no_action PF_CONSTRAINT_ACTION_CONTAINS)
   \<and> policy_test ''wheel'' rule_no_action [] ''org.example.action'' ctx_alice = UNKNOWN
   \<and> policy_test ''wheel'' rule_no_action [rule_grant_all] ''org.example.action'' ctx_alice
       = policy_test ''wheel'' rule_grant_all [] ''org.example.action'' ctx_alice"
proof -
  have h: "\<not> has_constraint rule_no_action PF_CONSTRAINT_ACTIONS
      \<and> \<not> has_constraint rule_no_action PF_CONSTRAINT_ACTION_CONTAINS"
    by (simp add: has_constraint_def example_rule_defs PF_CONSTRAINT_defs)
  show ?thesis
    using h
      C5_action_test_is_gatekeeper [OF disjI1 [OF h], of "''wheel''" "[]"
        "''org.example.action''" ctx_alice]
      C5_action_test_is_gatekeeper [OF disjI1 [OF h], of "''wheel''" "[rule_grant_all]"
        "''org.example.action''" ctx_alice]
    by simp
qed

text \<open>
  Claim C6 as stated fails: the entries are trimmed before they are compared.  The rule
  with \<open>Actions=a; org.example.action\<close> matches the action \<open>org.example.action\<close>, although
  neither list item is equal to the action or to \<open>*\<close> and the rule has no
  \<open>ActionContains\<close>.
\<close>

theorem C6_counterexample:
  "fst (policy_test_body ''wheel'' rule_spaced_action ''org.example.action'' ctx_alice)
   \<and> policy_test ''wheel'' rule_spaced_action [] ''org.example.action'' ctx_alice = AUTHORIZED
   \<and> actions rule_spaced_action = [''a'', '' org.example.action'']
   \<and> ''a'' \<noteq> ''org.example.action'' \<and> ''a'' \<noteq> ''*''
   \<and> '' org.example.action'' \<noteq> ''org.example.action'' \<and> '' org.example.action'' \<noteq> ''*''
   \<and> \<not> has_constraint rule_spaced_action PF_CONSTRAINT_ACTION_CONTAINS
   \<and> action_contains rule_spaced_action = []"
  by (simp add: policy_test.simps policy_test_body_def has_constraint_def example_rule_defs
        example_ctx_defs PF_CONSTRAINT_defs g_strstrip_defs g_str_equal_def
        POLICY_MATCH_ALL_def)

text \<open>
  Claim C6, amended.  The action of a rule matches the action id if and only if
  \<open>Actions\<close> is declared and some entry of it, trimmed of surrounding white space, is
  equal to the action id or to \<open>*\<close>, or \<open>ActionContains\<close> is declared and some entry of
  it, trimmed, occurs in the action id.  No other pattern is interpreted: a single
  \<open>Actions\<close> entry other than \<open>*\<close> matches the action id equal to it and no other.
\<close>

theorem C6_action_match:
  "(fst (policy_test_body wheel p action_id c) \<longleftrightarrow>
      (has_constraint p PF_CONSTRAINT_ACTIONS
         \<and> (\<exists>e\<in>set (actions p). g_strstrip e = action_id \<or> g_strstrip e = ''*''))
      \<or> (has_constraint p PF_CONSTRAINT_ACTION_CONTAINS
         \<and> (\<exists>e\<in>set (action_contains p). sublist (g_strstrip e) action_id)))
   \<and> (has_constraint p PF_CONSTRAINT_ACTIONS
        \<and> \<not> has_constraint p PF_CONSTRAINT_ACTION_CONTAINS
        \<and> actions p = [e] \<and> g_strstrip e \<noteq> ''*''
      \<longrightarrow> (fst (policy_test_body wheel p action_id c) \<longleftrightarrow> action_id = g_strstrip e))"
proof -
  have exact: "actions_loop (actions p) action_id \<longleftrightarrow>
      (\<exists>e\<in>set (actions p). g_strstrip e = action_id \<or> g_strstrip e = ''*'')"
    by (rule actions_loop_iff)
  have sub: "action_contains_loop (action_contains p) action_id \<longleftrightarrow>
      (\<exists>e\<in>set (action_contains p). sublist (g_strstrip e) action_id)"
    by (rule action_contains_loop_iff)
  have general: "fst (policy_test_body wheel p action_id c) \<longleftrightarrow>
      (has_constraint p PF_CONSTRAINT_ACTIONS
         \<and> (\<exists>e\<in>set (actions p). g_strstrip e = action_id \<or> g_strstrip e = ''*''))
      \<or> (has_constraint p PF_CONSTRAINT_ACTION_CONTAINS
         \<and> (\<exists>e\<in>set (action_contains p). sublist (g_strstrip e) action_id))"
    unfolding id_matched_iff exact sub by (rule refl)
  have single: "fst (policy_test_body wheel p action_id c) \<longleftrightarrow> action_id = g_strstrip e"
    if "has_constraint p PF_CONSTRAINT_ACTIONS"
      and "\<not> has_constraint p PF_CONSTRAINT_ACTION_CONTAINS"
      and "actions p = [e]" and "g_strstrip e \<noteq> ''*''"
    using that general by auto
  show ?thesis
    using general single by blast
qed

theorem C6_action_match_witness:
  "fst (policy_test_body ''wheel'' rule_star_inside ''org.example.*action'' ctx_alice)
   \<and> \<not> fst (policy_test_body ''wheel'' rule_star_inside ''org.example.xaction'' ctx_alice)
   \<and> \<not> fst (policy_test_body ''wheel'' rule_star_inside ''org.example.action'' ctx_alice)"
proof -
  have h: "has_constraint rule_star_inside PF_CONSTRAINT_ACTIONS
        \<and> \<not> has_constraint rule_star_inside PF_CONSTRAINT_ACTION_CONTAINS
        \<and> actions rule_star_inside = [''org.example.*action'']
        \<and> g_strstrip ''org.example.*action'' \<noteq> ''*''"
    by (simp add: has_constraint_def example_rule_defs PF_CONSTRAINT_defs g_strstrip_defs)
  have t: "g_strstrip ''org.example.*action'' = ''org.example.*action''"
    by (simp add: g_strstrip_defs)
  show ?thesis
    using h t
      C6_action_match [of "''wheel''" rule_star_inside "''org.example.*action''" ctx_alice
        "''org.example.*action''"]
      C6_action_match [of "''wheel''" rule_star_inside "''org.example.xaction''" ctx_alice
        "''org.example.*action''"]
      C6_action_match [of "''wheel''" rule_star_inside "''org.example.action''" ctx_alice
        "''org.example.*action''"]
    by simp
qed

text \<open>
  Claim C7 as stated fails, for the same reason: the rule with
  \<open>InUnixGroups=adm; wheel\<close> yields its result for a subject in the group \<open>wheel\<close>,
  although neither list item, after the substitution of the alias, is equal to a group of
  the subject.
\<close>

theorem C7_counterexample:
  "policy_test ''wheel'' rule_spaced_group [] ''org.example.action'' ctx_wheel = AUTHORIZED
   \<and> has_constraint rule_spaced_group PF_CONSTRAINT_UNIX_GROUPS
   \<and> unix_groups rule_spaced_group = [''adm'', '' wheel'']
   \<and> wheel_subst ''wheel'' ''adm'' \<notin> set (groups ctx_wheel)
   \<and> wheel_subst ''wheel'' '' wheel'' \<notin> set (groups ctx_wheel)
   \<and> policy_test ''wheel'' rule_spaced_group [] ''org.example.action'' ctx_alice = UNKNOWN"
  by (simp add: policy_test.simps policy_test_body_def has_constraint_def example_rule_defs
        example_ctx_defs PF_CONSTRAINT_defs g_strstrip_defs g_str_equal_def
        POLICY_MATCH_ALL_def POLICY_MATCH_WHEEL_def wheel_subst_def)

text \<open>
  Claim C7, amended.  For a rule whose action matched: a declared \<open>InUnixGroups\<close> passes
  if and only if some entry, trimmed of surrounding white space and with \<open>%sudo%\<close> then
  replaced by the configured wheel group, is equal to a group of the context; a declared
  \<open>InUserNames\<close> passes if and only if some trimmed entry is equal to the user name of the
  context; \<open>SubjectActive\<close> and \<open>SubjectLocal\<close> pass on equality with the flag of the
  context.  When all four pass the rule yields its result (when it declares one, and
  otherwise passes the request along); when one of them fails the rule does not yield its
  result: it returns its inverse result or passes the request along.
\<close>

theorem C7_constraints_pass:
  assumes "fst (policy_test_body wheel p action_id c)"
  shows "(subject_active_passes p c \<and> subject_local_passes p c
            \<and> unix_groups_passes wheel p c \<and> unix_names_passes p c
          \<longrightarrow> policy_test wheel p nxt action_id c =
                (if has_constraint p PF_CONSTRAINT_RESULT \<and> response p \<noteq> UNKNOWN
                 then response p else next_in_chain wheel nxt action_id c))
       \<and> (\<not> (subject_active_passes p c \<and> subject_local_passes p c
                \<and> unix_groups_passes wheel p c \<and> unix_names_passes p c)
          \<longrightarrow> policy_test wheel p nxt action_id c = response_inverse p
              \<or> policy_test wheel p nxt action_id c = next_in_chain wheel nxt action_id c)"
proof (intro conjI impI)
  assume pass: "subject_active_passes p c \<and> subject_local_passes p c
            \<and> unix_groups_passes wheel p c \<and> unix_names_passes p c"
  show "policy_test wheel p nxt action_id c =
          (if has_constraint p PF_CONSTRAINT_RESULT \<and> response p \<noteq> UNKNOWN
           then response p else next_in_chain wheel nxt action_id c)"
    using pass by (simp add: policy_test_matched [OF assms])
next
  assume fail: "\<not> (subject_active_passes p c \<and> subject_local_passes p c
                \<and> unix_groups_passes wheel p c \<and> unix_names_passes p c)"
  show "policy_test wheel p nxt action_id c = response_inverse p
          \<or> policy_test wheel p nxt action_id c = next_in_chain wheel nxt action_id c"
  proof (cases "subject_active_passes p c")
    case False
    then show ?thesis by (simp add: policy_test_matched [OF assms])
  next
    case True
    then have "\<not> (subject_local_passes p c \<and> unix_groups_passes wheel p c
                  \<and> unix_names_passes p c)"
      using fail by simp
    then show ?thesis
      using True by (simp add: policy_test_matched [OF assms])
  qed
qed

theorem C7_constraints_pass_witness:
  "fst (policy_test_body ''wheel'' rule_sudo ''org.example.action'' ctx_wheel)
   \<and> unix_groups_passes ''wheel'' rule_sudo ctx_wheel
   \<and> policy_test ''wheel'' rule_sudo [] ''org.example.action'' ctx_wheel = AUTHORIZED
   \<and> \<not> unix_groups_passes ''wheel'' rule_sudo ctx_alice
   \<and> policy_test ''wheel'' rule_sudo [] ''org.example.action'' ctx_alice \<noteq> AUTHORIZED"
proof -
  have m: "fst (policy_test_body ''wheel'' rule_sudo ''org.example.action'' c)" for c
    by (simp add: id_matched_iff has_constraint_def example_rule_defs PF_CONSTRAINT_defs
          g_strstrip_defs g_str_equal_def POLICY_MATCH_ALL_def)
  have pass: "subject_active_passes rule_sudo ctx_wheel \<and> subject_local_passes rule_sudo ctx_wheel
      \<and> unix_groups_passes ''wheel'' rule_sudo ctx_wheel \<and> unix_names_passes rule_sudo ctx_wheel"
    by (simp add: subject_active_passes_def subject_local_passes_def unix_groups_passes_def
          unix_names_passes_def has_constraint_def example_rule_defs example_ctx_defs
          PF_CONSTRAINT_defs g_strstrip_defs wheel_subst_def)
  have fail: "\<not> unix_groups_passes ''wheel'' rule_sudo ctx_alice"
    by (simp add: unix_groups_passes_def has_constraint_def example_rule_defs example_ctx_defs
          PF_CONSTRAINT_defs g_strstrip_defs wheel_subst_def)
  have r: "has_constraint rule_sudo PF_CONSTRAINT_RESULT" "response rule_sudo = AUTHORIZED"
    "response_inverse rule_sudo = NOT_AUTHORIZED"
    by (simp_all add: has_constraint_def example_rule_defs PF_CONSTRAINT_defs)
  show ?thesis
    using m pass fail r
      C7_constraints_pass [OF m, of ctx_wheel "[]"]
      C7_constraints_pass [OF m, of ctx_alice "[]"]
    by (auto simp: next_in_chain_def)
qed

section \<open>Evaluation does not read the netgroups\<close>

lemma and_flag_via_mask:
  fixes c d flag mask :: "32 word"
  assumes "(c AND NOT mask) = (d AND NOT mask)" and "(flag AND mask) = 0"
  shows "(c AND flag) = (d AND flag)"
proof (rule bit_eqI)
  fix n
  assume "possible_bit TYPE(32 word) n"
  from assms(1) have 1: "bit (c AND NOT mask) n = bit (d AND NOT mask) n" by simp
  from assms(2) have 2: "\<not> bit (flag AND mask) n" by simp
  show "bit (c AND flag) n = bit (d AND flag) n"
    using 1 2 by (auto simp: bit_and_iff bit_not_iff dest: bit_imp_le_length)
qed

lemma same_but_netgroups_has_constraint:
  assumes "same_but_netgroups p q" and "(flag AND PF_CONSTRAINT_NET_GROUPS) = 0"
  shows "has_constraint p flag = has_constraint q flag"
proof -
  have "(constraints p AND flag) = (constraints q AND flag)"
  proof (rule and_flag_via_mask [where mask = PF_CONSTRAINT_NET_GROUPS])
    show "(constraints p AND NOT PF_CONSTRAINT_NET_GROUPS)
            = (constraints q AND NOT PF_CONSTRAINT_NET_GROUPS)"
      using assms(1) by (simp add: same_but_netgroups_def)
    show "(flag AND PF_CONSTRAINT_NET_GROUPS) = 0"
      by (rule assms(2))
  qed
  then show ?thesis by (simp add: has_constraint_def)
qed

lemma same_but_netgroups_flags:
  assumes "same_but_netgroups p q"
  shows "has_constraint p PF_CONSTRAINT_ACTIONS = has_constraint q PF_CONSTRAINT_ACTIONS"
    and "has_constraint p PF_CONSTRAINT_ACTION_CONTAINS
           = has_constraint q PF_CONSTRAINT_ACTION_CONTAINS"
    and "has_constraint p PF_CONSTRAINT_SUBJECT_ACTIVE
           = has_constraint q PF_CONSTRAINT_SUBJECT_ACTIVE"
    and "has_constraint p PF_CONSTRAINT_SUBJECT_LOCAL
           = has_constraint q PF_CONSTRAINT_SUBJECT_LOCAL"
    and "has_constraint p PF_CONSTRAINT_UNIX_GROUPS = has_constraint q PF_CONSTRAINT_UNIX_GROUPS"
    and "has_constraint p PF_CONSTRAINT_UNIX_NAMES = has_constraint q PF_CONSTRAINT_UNIX_NAMES"
    and "has_constraint p PF_CONSTRAINT_RESULT = has_constraint q PF_CONSTRAINT_RESULT"
    and "has_constraint p PF_CONSTRAINT_RESULT_INVERSE
           = has_constraint q PF_CONSTRAINT_RESULT_INVERSE"
  by (rule same_but_netgroups_has_constraint [OF assms]; simp add: PF_CONSTRAINT_defs)+

lemma same_but_netgroups_body:
  assumes "same_but_netgroups p q"
  shows "policy_test_body wheel p a c = policy_test_body wheel q a c"
proof -
  from assms have "actions p = actions q" "action_contains p = action_contains q"
    "unix_groups p = unix_groups q" "unix_names p = unix_names q"
    "require_active p = require_active q" "require_local p = require_local q"
    "response p = response q"
    by (simp_all add: same_but_netgroups_def)
  then show ?thesis
    unfolding policy_test_body_def same_but_netgroups_flags [OF assms]
    by (simp only:)
qed

lemma same_but_netgroups_step:
  assumes "same_but_netgroups p q"
    and "next_in_chain wheel ps a c = next_in_chain wheel qs a c"
  shows "policy_test wheel p ps a c = policy_test wheel q qs a c"
proof -
  have b: "policy_test_body wheel p a c = policy_test_body wheel q a c"
    using assms(1) by (rule same_but_netgroups_body)
  have i: "has_constraint p PF_CONSTRAINT_RESULT_INVERSE
             = has_constraint q PF_CONSTRAINT_RESULT_INVERSE"
    using assms(1) by (rule same_but_netgroups_flags(8))
  have r: "response_inverse p = response_inverse q"
    using assms(1) by (simp add: same_but_netgroups_def)
  show ?thesis
    unfolding policy_test_step b i r assms(2) by (rule refl)
qed

lemma same_but_netgroups_policy_test:
  "list_all2 same_but_netgroups (p # ps) (q # qs) \<Longrightarrow>
     policy_test wheel p ps a c = policy_test wheel q qs a c"
proof (induction ps arbitrary: p q qs)
  case Nil
  then have "same_but_netgroups p q" and "qs = []" by simp_all
  then show ?case
    by (simp add: same_but_netgroups_step)
next
  case (Cons p' ps')
  then obtain q' qs' where qs: "qs = q' # qs'" and pq: "same_but_netgroups p q"
    and rest: "list_all2 same_but_netgroups (p' # ps') (q' # qs')"
    by (auto simp: list_all2_Cons1)
  have "next_in_chain wheel (p' # ps') a c = next_in_chain wheel (q' # qs') a c"
    using Cons.IH [OF rest] by (simp add: next_in_chain_def)
  then show ?case
    unfolding qs using pq by (rule same_but_netgroups_step [rotated])
qed

lemma same_but_netgroups_normal_chain:
  assumes "same_normal_but_netgroups f g"
  shows "normal_chain_test wheel a c f = normal_chain_test wheel a c g"
proof (cases "normal f")
  case Nil
  then show ?thesis
    using assms by (simp add: same_normal_but_netgroups_def normal_chain_test_def)
next
  case (Cons p ps)
  then obtain q qs where "normal g = q # qs" and "list_all2 same_but_netgroups (p # ps) (q # qs)"
    using assms by (auto simp: same_normal_but_netgroups_def list_all2_Cons1)
  then show ?thesis
    using Cons same_but_netgroups_policy_test [of p ps q qs wheel a c]
    by (simp add: normal_chain_test_def)
qed

text \<open>\<open>policy_file_test\<close> in terms of the verdicts of the normal chains.\<close>

lemma policy_file_test_step:
  "policy_file_test wheel f fs a c =
     (case fs of
        [] \<Rightarrow> normal_chain_test wheel a c f
      | g # gs \<Rightarrow>
          if normal_chain_test wheel a c f = UNKNOWN then policy_file_test wheel g gs a c
          else normal_chain_test wheel a c f)"
  by (simp add: policy_file_test.simps [of wheel f] normal_chain_test_def Let_def
        split: list.splits)

lemma same_but_netgroups_policy_file_test:
  "list_all2 same_normal_but_netgroups (f # fs) (g # gs) \<Longrightarrow>
     policy_file_test wheel f fs a c = policy_file_test wheel g gs a c"
proof (induction fs arbitrary: f g gs)
  case Nil
  then have "same_normal_but_netgroups f g" and "gs = []" by simp_all
  then show ?case
    using same_but_netgroups_normal_chain [of f g wheel a c]
    by (simp add: policy_file_test_step)
next
  case (Cons f' fs')
  then obtain g' gs' where gs: "gs = g' # gs'" and fg: "same_normal_but_netgroups f g"
    and rest: "list_all2 same_normal_but_netgroups (f' # fs') (g' # gs')"
    by (auto simp: list_all2_Cons1)
  show ?case
    using Cons.IH [OF rest] same_but_netgroups_normal_chain [OF fg, of wheel a c]
    by (simp add: policy_file_test_step [of wheel f] policy_file_test_step [of wheel g] gs)
qed

text \<open>
  Claim C10.  The verdict of \<open>policy_test\<close> on a chain, and the verdict of the
  authorization check on a whole rule-set, are the same for two chains (two rule-sets) that
  differ at most in the \<open>InNetGroups\<close> entries and the netgroup constraint bit of their
  rules.
\<close>

theorem C10_netgroups_not_evaluated:
  "(list_all2 same_but_netgroups (p # ps) (q # qs) \<longrightarrow>
      policy_test wheel p ps action_id c = policy_test wheel q qs action_id c)
   \<and> (list_all2 same_normal_but_netgroups fs gs \<longrightarrow>
      polkit_backend_keyfile_authority_check_authorization_sync wheel os
        (auth\<lparr>policy := fs\<rparr>) subject user is_local is_active action_id implicit
      = polkit_backend_keyfile_authority_check_authorization_sync wheel os
        (auth\<lparr>policy := gs\<rparr>) subject user is_local is_active action_id implicit)"
proof (intro conjI impI)
  assume "list_all2 same_but_netgroups (p # ps) (q # qs)"
  then show "policy_test wheel p ps action_id c = policy_test wheel q qs action_id c"
    by (rule same_but_netgroups_policy_test)
next
  assume a: "list_all2 same_normal_but_netgroups fs gs"
  show "polkit_backend_keyfile_authority_check_authorization_sync wheel os
        (auth\<lparr>policy := fs\<rparr>) subject user is_local is_active action_id implicit
      = polkit_backend_keyfile_authority_check_authorization_sync wheel os
        (auth\<lparr>policy := gs\<rparr>) subject user is_local is_active action_id implicit"
  proof (cases fs)
    case Nil
    then show ?thesis using a by simp
  next
    case (Cons f fs')
    then obtain g gs' where gs: "gs = g # gs'"
      and rel: "list_all2 same_normal_but_netgroups (f # fs') (g # gs')"
      using a by (auto simp: list_all2_Cons1)
    show ?thesis
      using same_but_netgroups_policy_file_test [OF rel]
      by (simp add: polkit_backend_keyfile_authority_check_authorization_sync_def Cons gs
            split: prepare_result.splits)
  qed
qed

theorem C10_netgroups_not_evaluated_witness:
  "list_all2 same_but_netgroups [rule_netgroup] [rule_grant_all]
   \<and> net_groups rule_netgroup \<noteq> net_groups rule_grant_all
   \<and> policy_test ''wheel'' rule_netgroup [] ''org.example.action'' ctx_alice
       = policy_test ''wheel'' rule_grant_all [] ''org.example.action'' ctx_alice
   \<and> list_all2 same_normal_but_netgroups
        [\<lparr>normal = [rule_netgroup], admin = []\<rparr>] [\<lparr>normal = [rule_grant_all], admin = []\<rparr>]
   \<and> polkit_backend_keyfile_authority_check_authorization_sync ''wheel'' os_example
        \<lparr>rules_dirs = [], policy = [\<lparr>normal = [rule_netgroup], admin = []\<rparr>]\<rparr>
        (UnixProcess 4242) (UnixUser 1000) True True ''org.example.action'' NOT_AUTHORIZED
      = polkit_backend_keyfile_authority_check_authorization_sync ''wheel'' os_example
        \<lparr>rules_dirs = [], policy = [\<lparr>normal = [rule_grant_all], admin = []\<rparr>]\<rparr>
        (UnixProcess 4242) (UnixUser 1000) True True ''org.example.action'' NOT_AUTHORIZED"
proof -
  have s: "same_but_netgroups rule_netgroup rule_grant_all"
    by (simp add: same_but_netgroups_def example_rule_defs PF_CONSTRAINT_defs)
  have n: "net_groups rule_netgroup \<noteq> net_groups rule_grant_all"
    by (simp add: example_rule_defs)
  have l: "list_all2 same_but_netgroups [rule_netgroup] [rule_grant_all]"
    using s by simp
  have f: "list_all2 same_normal_but_netgroups
        [\<lparr>normal = [rule_netgroup], admin = []\<rparr>] [\<lparr>normal = [rule_grant_all], admin = []\<rparr>]"
    using s by (simp add: same_normal_but_netgroups_def)
  show ?thesis
    using l n f
      C10_netgroups_not_evaluated [where p = rule_netgroup and ps = "[]"
        and q = rule_grant_all and qs = "[]"
        and fs = "[\<lparr>normal = [rule_netgroup], admin = []\<rparr>]"
        and gs = "[\<lparr>normal = [rule_grant_all], admin = []\<rparr>]"
        and wheel = "''wheel''" and action_id = "''org.example.action''" and c = ctx_alice
        and os = os_example and auth = "\<lparr>rules_dirs = [], policy = []\<rparr>"
        and subject = "UnixProcess 4242" and user = "UnixUser 1000" and is_local = True
        and is_active = True and implicit = NOT_AUTHORIZED]
    by simp
qed

section \<open>Compilation: verdict strings\<close>

text \<open>
  An unrecognised \<open>Result\<close> string never yields a rule: \<open>policy_load\<close> jumps to
  \<open>handle_err\<close> (where, no GLib error being set, it does not return at all).
\<close>

lemma load_result_invalid:
  assumes "g_key_file_has_key file s ''Result''"
    and "g_key_file_get_string file s ''Result'' = Some v"
    and "policy_string_to_result lib (g_strstrip v) = UNKNOWN"
  shows "load_result lib file s pol = Segfault"
  using assms by (simp add: load_result_def)

lemma policy_load_invalid_result:
  assumes "g_key_file_has_key file s ''Result''"
    and "g_key_file_get_string file s ''Result'' = Some v"
    and "policy_string_to_result lib (g_strstrip v) = UNKNOWN"
  shows "policy_load lib file s \<noteq> Value p"
  unfolding policy_load_def
  by (simp add: and_then_def load_result_invalid [OF assms] split: outcome.splits)

lemma load_sections_invalid:
  assumes "s \<in> set ss" and "\<forall>p. policy_load lib kf (g_strstrip s) \<noteq> Value p"
  shows "load_sections lib kf ss \<noteq> Value ps"
  using assms(1)
proof (induction ss arbitrary: ps)
  case Nil
  then show ?case by simp
next
  case (Cons x xs)
  show ?case
  proof (cases "x = s")
    case True
    then show ?thesis
      using assms(2) by (simp add: and_then_def split: outcome.splits)
  next
    case False
    then have "s \<in> set xs" using Cons.prems by simp
    then have "\<forall>qs. load_sections lib kf xs \<noteq> Value qs" using Cons.IH by blast
    then show ?thesis
      by (simp add: and_then_def split: outcome.splits)
  qed
qed

lemma invalid_result_never_compiles:
  assumes "g_key_file_has_key kf POLICY_SECTION ''Rules''"
    and "g_key_file_get_string_list kf POLICY_SECTION ''Rules'' = Some ss"
    and "s \<in> set ss"
    and "g_key_file_has_key kf (g_strstrip s) ''Result''"
    and "g_key_file_get_string kf (g_strstrip s) ''Result'' = Some v"
    and "policy_string_to_result lib (g_strstrip v) = UNKNOWN"
  shows "policy_file_new_from_path lib (Some kf) \<noteq> Compiled f"
proof -
  have "\<forall>p. policy_load lib kf (g_strstrip s) \<noteq> Value p"
    using policy_load_invalid_result [OF assms(4-6)] by blast
  then have "\<forall>ps. load_sections lib kf ss \<noteq> Value ps"
    using assms(3) load_sections_invalid by blast
  then have "\<forall>ps. policy_file_load_rules lib kf ''Rules'' \<noteq> Value ps"
    by (simp add: policy_file_load_rules_def assms(2))
  then show ?thesis
    using assms(1)
    by (simp add: policy_file_new_from_path_def and_then_def split: outcome.splits)
qed

text \<open>
  Claim C2 (the code departs from it).  The file whose rule has \<open>Result=yes\<close> and
  \<open>ResultInverse=bogus\<close> compiles: the rule is produced with the inverse constraint bit
  set and the inverse verdict \<open>UNKNOWN\<close>, whereas the same string under \<open>Result\<close> does
  not compile.
\<close>

theorem C2_invalid_result_inverse_compiles:
  "policy_file_new_from_path libpolkit_example (Some keyfile_bad_inverse) =
     Compiled
       \<lparr> normal =
           [blank_rule\<lparr> policy_id := ''r1'', actions := [''org.example.action''],
                        response := AUTHORIZED, response_inverse := UNKNOWN,
                        constraints := PF_CONSTRAINT_ACTIONS OR PF_CONSTRAINT_RESULT
                                       OR PF_CONSTRAINT_RESULT_INVERSE \<rparr>],
         admin = [] \<rparr>
   \<and> policy_string_to_result libpolkit_example (g_strstrip ''bogus'') = UNKNOWN
   \<and> policy_file_new_from_path libpolkit_example (Some keyfile_bad_result) = Compile_segfault"
  by (simp add: policy_file_new_from_path_def policy_file_load_rules_def policy_load_def
        load_string_list_def load_result_def load_result_inverse_def load_boolean_def
        and_then_def policy_new0_def policy_string_to_result_def g_ascii_strdown_def
        g_ascii_tolower_def g_strstrip_defs keyfile_bad_inverse_def keyfile_bad_result_def
        key_file_of_def libpolkit_example_def blank_rule_def POLICY_SECTION_def
        PF_CONSTRAINT_defs)

section \<open>Failure of the context preparation, administrator identities\<close>

lemma prepare_context_failed_iff:
  "polkit_backend_keyfile_internal_prepare_context os subject user is_local is_active
     = Prepare_failed
   \<longleftrightarrow> (\<exists>name. subject = SystemBusName name
               \<and> polkit_system_bus_name_get_process_sync os name = None)"
  by (auto simp: polkit_backend_keyfile_internal_prepare_context_def
           split: PolkitSubject.splits option.splits PolkitIdentity.splits prod.splits)

text \<open>
  Claim C3.  When the preparation of the context fails, the authorization check returns
  \<open>NOT_AUTHORIZED\<close>, whatever the rule-set and the caller's implicit verdict are, and
  the administrator identities are the single identity of the user with uid 0.
\<close>

theorem C3_context_failure:
  assumes "polkit_backend_keyfile_internal_prepare_context os subject user is_local is_active
             = Prepare_failed"
  shows "polkit_backend_keyfile_authority_check_authorization_sync wheel os auth subject user
           is_local is_active action_id implicit = Some NOT_AUTHORIZED
       \<and> polkit_backend_keyfile_authority_get_admin_auth_identities lib wheel os auth subject
           user is_local is_active = Some [UnixUser 0]"
  using assms
  by (simp add: polkit_backend_keyfile_authority_check_authorization_sync_def
        polkit_backend_keyfile_authority_get_admin_auth_identities_def)

theorem C3_context_failure_witness:
  "polkit_backend_keyfile_internal_prepare_context os_example (SystemBusName '':1.42'')
     (UnixUser 1000) True True = Prepare_failed
   \<and> polkit_backend_keyfile_authority_check_authorization_sync ''wheel'' os_example
       \<lparr>rules_dirs = [], policy = [file_grant]\<rparr> (SystemBusName '':1.42'') (UnixUser 1000)
       True True ''org.example.action'' AUTHORIZED = Some NOT_AUTHORIZED
   \<and> polkit_backend_keyfile_authority_get_admin_auth_identities libpolkit_example ''wheel''
       os_example \<lparr>rules_dirs = [], policy = [\<lparr>normal = [], admin = [rule_sudo]\<rparr>]\<rparr>
       (SystemBusName '':1.42'') (UnixUser 1000) True True = Some [UnixUser 0]"
proof -
  have h: "polkit_backend_keyfile_internal_prepare_context os_example (SystemBusName '':1.42'')
     (UnixUser 1000) True True = Prepare_failed"
    by (simp add: prepare_context_failed_iff os_example_def)
  show ?thesis
    using h
      C3_context_failure [OF h, where wheel = "''wheel''"
        and auth = "\<lparr>rules_dirs = [], policy = [file_grant]\<rparr>"
        and action_id = "''org.example.action''" and implicit = AUTHORIZED]
      C3_context_failure [OF h, where wheel = "''wheel''" and lib = libpolkit_example
        and auth = "\<lparr>rules_dirs = [], policy = [\<lparr>normal = [], admin = [rule_sudo]\<rparr>]\<rparr>"]
    by simp
qed

lemma fold_admin_empty:
  "(\<forall>f\<in>set files. admin f = []) \<Longrightarrow>
     fold (\<lambda>file ret. fold (admin_of_policy lib wheel) (admin file) ret) files acc = acc"
  by (induction files arbitrary: acc) simp_all

lemma harvest_no_admin_rules:
  "(\<forall>f\<in>set files. admin f = []) \<Longrightarrow> harvest lib wheel files = []"
  by (simp add: harvest_def fold_admin_empty)

lemma prepare_context_returns:
  assumes "subject \<noteq> OtherSubject" and "user = UnixUser uid"
  shows "polkit_backend_keyfile_internal_prepare_context os subject user is_local is_active
           \<noteq> Assertion_failed"
  using assms
  by (auto simp: polkit_backend_keyfile_internal_prepare_context_def
           split: PolkitSubject.splits option.splits prod.splits)

text \<open>
  Claim C4.  For a subject that is a process or a bus name and a user that is a UNIX user
  (the cases in which the code does not stop on an assertion), the administrator identities
  are returned and are never the empty list; when the walk over the admin chains yields no
  identity, in particular when no file has an admin rule, they are exactly the identity of
  the user with uid 0.
\<close>

theorem C4_admin_identities_nonempty:
  assumes "subject \<noteq> OtherSubject" and "user = UnixUser uid"
  shows "\<exists>ids. polkit_backend_keyfile_authority_get_admin_auth_identities lib wheel os auth
                 subject user is_local is_active = Some ids
              \<and> ids \<noteq> []
              \<and> (harvest lib wheel (policy auth) = [] \<longrightarrow> ids = [UnixUser 0])
              \<and> ((\<forall>f\<in>set (policy auth). admin f = []) \<longrightarrow> ids = [UnixUser 0])"
proof (cases "polkit_backend_keyfile_internal_prepare_context os subject user is_local is_active")
  case Assertion_failed
  then show ?thesis using prepare_context_returns [OF assms] by simp
next
  case Prepare_failed
  then show ?thesis
    by (simp add: polkit_backend_keyfile_authority_get_admin_auth_identities_def)
next
  case (Prepared ctx)
  then show ?thesis
    by (auto simp: polkit_backend_keyfile_authority_get_admin_auth_identities_def Let_def
          harvest_no_admin_rules)
qed

theorem C4_admin_identities_nonempty_witness:
  "polkit_backend_keyfile_authority_get_admin_auth_identities libpolkit_example ''wheel''
     os_example \<lparr>rules_dirs = [], policy = [file_deny, file_grant]\<rparr> (UnixProcess 4242)
     (UnixUser 1000) True True = Some [UnixUser 0]"
proof -
  have a: "\<forall>f\<in>set (policy \<lparr>rules_dirs = [], policy = [file_deny, file_grant]\<rparr>). admin f = []"
    by (simp add: file_deny_def file_grant_def)
  show ?thesis
    using a
      C4_admin_identities_nonempty [where subject = "UnixProcess 4242"
        and user = "UnixUser 1000" and uid = 1000 and lib = libpolkit_example
        and wheel = "''wheel''" and os = os_example
        and auth = "\<lparr>rules_dirs = [], policy = [file_deny, file_grant]\<rparr>"
        and is_local = True and is_active = True]
    by auto
qed

section \<open>Loading: the order of the files\<close>

lemma strcmp_eq_0_iff: "strcmp a b = 0 \<longleftrightarrow> a = b"
proof (induction a arbitrary: b)
  case Nil
  then show ?case by (cases b) simp_all
next
  case (Cons x xs)
  then show ?case by (cases b) simp_all
qed

lemma strcmp_values: "strcmp a b = -1 \<or> strcmp a b = 0 \<or> strcmp a b = 1"
proof (induction a arbitrary: b)
  case Nil
  then show ?case by (cases b) simp_all
next
  case (Cons x xs)
  then show ?case by (cases b) simp_all
qed

lemma strcmp_swap: "strcmp b a = - strcmp a b"
proof (induction a arbitrary: b)
  case Nil
  then show ?case by (cases b) simp_all
next
  case (Cons x xs)
  show ?case
  proof (cases b)
    case Nil
    then show ?thesis by simp
  next
    case (Cons y ys)
    have "(of_char x :: nat) = of_char y \<longleftrightarrow> x = y" by simp
    then show ?thesis
      using Cons.IH [of ys] Cons by (auto simp: not_less le_less)
  qed
qed

lemma strrchr_after_absent: "c \<notin> set s \<Longrightarrow> strrchr_after s c = None"
  by (induction s) auto

lemma strrchr_after_last: "c \<notin> set n \<Longrightarrow> strrchr_after (d @ c # n) c = Some n"
  by (induction d) (simp_all add: strrchr_after_absent)

text \<open>
  Two paths with the same base name are ordered by \<open>strcmp\<close> on the full paths; the
  position of their directories in \<open>rules_dirs\<close> is not an argument of the comparison.
\<close>

lemma rules_file_name_cmp_same_base:
  assumes "CHR ''/'' \<notin> set n" and "d1 @ ''/'' @ n \<noteq> d2 @ ''/'' @ n"
  shows "rules_file_name_cmp (d1 @ ''/'' @ n) (d2 @ ''/'' @ n)
           = Some (strcmp (d1 @ ''/'' @ n) (d2 @ ''/'' @ n))"
  using assms
  by (simp add: rules_file_name_cmp_def strrchr_after_last strcmp_eq_0_iff)

text \<open>
  The comparison is a strict linear order on the paths it does not abort on, so the model
  of \<open>g_list_sort\<close> returns the one sorted arrangement of the paths, as any sorting
  procedure does.
\<close>

lemma strcmp_trans:
  "strcmp a b \<le> 0 \<Longrightarrow> strcmp b c \<le> 0 \<Longrightarrow> strcmp a c \<le> 0"
proof (induction a arbitrary: b c)
  case Nil
  then show ?case by (cases c) simp_all
next
  case (Cons x xs)
  show ?case
  proof (cases b)
    case Nil
    then show ?thesis using Cons.prems by simp
  next
    case b: (Cons y ys)
    show ?thesis
    proof (cases c)
      case Nil
      then show ?thesis using Cons.prems b by simp
    next
      case c: (Cons z zs)
      show ?thesis
        using Cons.prems Cons.IH [of ys zs] unfolding b c
        by (auto split: if_splits)
    qed
  qed
qed

lemma strcmp_less_iff: "strcmp a b < 0 \<longleftrightarrow> strcmp a b \<le> 0 \<and> a \<noteq> b"
  using strcmp_eq_0_iff [of a b] by auto

lemma strcmp_antisym: "strcmp a b \<le> 0 \<Longrightarrow> strcmp b a \<le> 0 \<Longrightarrow> a = b"
  using strcmp_swap [of b a] strcmp_eq_0_iff [of a b] by simp

lemma path_before_iff:
  "path_before a b \<longleftrightarrow>
     (\<exists>x y. strrchr_after a CHR ''/'' = Some x \<and> strrchr_after b CHR ''/'' = Some y
        \<and> (strcmp x y < 0 \<or> (x = y \<and> strcmp a b < 0)))"
proof -
  have refl: "strcmp s s = 0" for s
    by (simp add: strcmp_eq_0_iff)
  show ?thesis
    by (auto simp: path_before_def rules_file_name_cmp_def Let_def strcmp_eq_0_iff refl
          split: option.splits if_splits)
qed

lemma path_before_trans:
  assumes "path_before a b" and "path_before b c"
  shows "path_before a c"
proof -
  from assms obtain x y z where
    x: "strrchr_after a CHR ''/'' = Some x" and y: "strrchr_after b CHR ''/'' = Some y"
    and z: "strrchr_after c CHR ''/'' = Some z"
    and xy: "strcmp x y < 0 \<or> (x = y \<and> strcmp a b < 0)"
    and yz: "strcmp y z < 0 \<or> (y = z \<and> strcmp b c < 0)"
    by (auto simp: path_before_iff)
  have "strcmp x z < 0 \<or> (x = z \<and> strcmp a c < 0)"
    using xy yz strcmp_trans [of x y z] strcmp_trans [of a b c]
      strcmp_antisym [of x y] strcmp_antisym [of a b]
    by (auto simp: strcmp_less_iff)
  then show ?thesis
    using x z by (auto simp: path_before_iff)
qed

lemma rules_file_name_cmp_swap:
  "rules_file_name_cmp a b = Some c \<Longrightarrow> rules_file_name_cmp b a = Some (- c)"
  using strcmp_swap [of b a]
    strcmp_swap [of "the (strrchr_after b CHR ''/'')" "the (strrchr_after a CHR ''/'')"]
  by (auto simp: rules_file_name_cmp_def Let_def split: option.splits if_splits)

lemma rules_file_name_cmp_nonzero: "rules_file_name_cmp a b = Some c \<Longrightarrow> c \<noteq> 0"
  by (auto simp: rules_file_name_cmp_def Let_def split: option.splits if_splits)

lemma sort_insert_sorted:
  assumes "sort_insert rules_file_name_cmp x ys = Some r" and "sorted_wrt path_before ys"
  shows "sorted_wrt path_before r \<and> mset r = add_mset x (mset ys)"
  using assms
proof (induction ys arbitrary: r)
  case Nil
  then show ?case by auto
next
  case (Cons y ys)
  from Cons.prems(1) obtain c where c: "rules_file_name_cmp x y = Some c"
    by (auto split: option.splits)
  show ?case
  proof (cases "c \<le> 0")
    case True
    then have xy: "path_before x y"
      using c rules_file_name_cmp_nonzero [OF c] by (simp add: path_before_def)
    have r: "r = x # y # ys" using Cons.prems(1) c True by simp
    have "\<forall>z\<in>set ys. path_before x z"
      using Cons.prems(2) xy path_before_trans by auto
    then show ?thesis using r xy Cons.prems(2) by simp
  next
    case False
    then obtain r' where r': "sort_insert rules_file_name_cmp x ys = Some r'" and r: "r = y # r'"
      using Cons.prems(1) c by (auto split: option.splits)
    have yx: "path_before y x"
      using rules_file_name_cmp_swap [OF c] False by (simp add: path_before_def)
    have ih: "sorted_wrt path_before r' \<and> mset r' = add_mset x (mset ys)"
      using Cons.IH [OF r'] Cons.prems(2) by simp
    then have "set r' = insert x (set ys)"
      by (metis set_mset_add_mset_insert set_mset_mset)
    then show ?thesis
      using ih r yx Cons.prems(2) by auto
  qed
qed

lemma g_list_sort_sorted:
  "g_list_sort rules_file_name_cmp xs = Some ys \<Longrightarrow>
     sorted_wrt path_before ys \<and> mset ys = mset xs"
proof (induction xs arbitrary: ys)
  case Nil
  then show ?case by simp
next
  case (Cons x xs)
  then obtain s where s: "g_list_sort rules_file_name_cmp xs = Some s"
    and i: "sort_insert rules_file_name_cmp x s = Some ys"
    by (auto split: option.splits)
  show ?case
    using sort_insert_sorted [OF i] Cons.IH [OF s] by simp
qed

lemma collect_names_single:
  "g_str_has_suffix n ''.keyrules'' \<Longrightarrow> collect_names d [n] files = (d @ ''/'' @ n) # files"
  by (simp add: collect_names_def)

text \<open>
  What the linking loop leaves in \<open>authority->priv->policy\<close>: the files that compile,
  behind the chain already there when \<open>last\<close> is set, and in place of it otherwise;
  when no file compiles the pointer is not written.
\<close>

lemma link_files_result:
  "link_files lib fs files lastp pol = Some r \<Longrightarrow>
     r = (if lastp then pol @ compiled_files lib fs files
          else if compiled_files lib fs files = [] then pol
          else compiled_files lib fs files)"
proof (induction files arbitrary: lastp pol)
  case Nil
  then show ?case by (simp add: compiled_files_def)
next
  case (Cons filename l)
  show ?case
  proof (cases "policy_file_new_from_path lib (g_key_file_load_from_file fs filename)")
    case (Compiled cf)
    then show ?thesis
      using Cons.prems Cons.IH [of True "pol @ [cf]"] Cons.IH [of True "[cf]"]
      by (auto simp: compiled_files_def split: if_splits)
  next
    case Null_with_error
    then show ?thesis
      using Cons.prems Cons.IH [of lastp pol] by (simp add: compiled_files_def)
  next
    case Null_without_error
    then show ?thesis using Cons.prems by simp
  next
    case Compile_segfault
    then show ?thesis using Cons.prems by simp
  qed
qed

lemma link_files_all_load_errors:
  "(\<forall>f\<in>set files. g_key_file_load_from_file fs f = None) \<Longrightarrow>
     link_files lib fs files lastp pol = Some pol"
  by (induction files) (simp_all add: policy_file_new_from_path_def)

lemma set_collect_names:
  "set (collect_names d names files) =
     set files \<union> {d @ ''/'' @ n | n. n \<in> set names \<and> g_str_has_suffix n ''.keyrules''}"
  unfolding collect_names_def
  by (induction names arbitrary: files) auto

lemma collect_files_fold_mono:
  "set acc \<subseteq> set (fold (\<lambda>dir_name files.
             case g_dir_read fs dir_name of
               None \<Rightarrow> files
             | Some names \<Rightarrow> collect_names dir_name names files) dirs acc)"
proof (induction dirs arbitrary: acc)
  case Nil
  then show ?case by simp
next
  case (Cons d ds)
  show ?case
    using Cons [of "case g_dir_read fs d of None \<Rightarrow> acc | Some names \<Rightarrow> collect_names d names acc"]
    by (auto simp: set_collect_names split: option.splits)
qed

lemma collect_files_fold_member:
  assumes "d \<in> set dirs" and "g_dir_read fs d = Some names" and "n \<in> set names"
    and "g_str_has_suffix n ''.keyrules''"
  shows "d @ ''/'' @ n \<in> set (fold (\<lambda>dir_name files.
             case g_dir_read fs dir_name of
               None \<Rightarrow> files
             | Some names \<Rightarrow> collect_names dir_name names files) dirs acc)"
  using assms(1)
proof (induction dirs arbitrary: acc)
  case Nil
  then show ?case by simp
next
  case (Cons x xs)
  show ?case
  proof (cases "x = d")
    case True
    have "d @ ''/'' @ n \<in> set (collect_names d names acc)"
      using assms(3,4) by (auto simp: set_collect_names)
    then show ?thesis
      using True assms(2) collect_files_fold_mono [of "collect_names d names acc" fs xs]
      by auto
  next
    case False
    then have "d \<in> set xs" using Cons.prems by simp
    then show ?thesis using Cons.IH by simp
  qed
qed

lemma collect_files_member:
  assumes "d \<in> set dirs" and "g_dir_read fs d = Some names" and "n \<in> set names"
    and "g_str_has_suffix n ''.keyrules''"
  shows "d @ ''/'' @ n \<in> set (collect_files fs dirs)"
  unfolding collect_files_def using assms by (rule collect_files_fold_member)

lemma path_before_asym: "path_before a b \<Longrightarrow> \<not> path_before b a"
  using rules_file_name_cmp_swap [of a b]
  by (auto simp: path_before_def split: option.splits)

lemma sorted_positions:
  assumes "sorted_wrt path_before files" and "p1 \<in> set files" and "p2 \<in> set files"
    and "path_before p1 p2"
  shows "\<exists>as bs cs. files = as @ p1 # bs @ p2 # cs"
proof -
  from assms(2) obtain as rest where f: "files = as @ p1 # rest"
    by (auto simp: in_set_conv_decomp)
  have ne: "p1 \<noteq> p2"
    using assms(4) path_before_asym by blast
  have "p2 \<notin> set as"
  proof
    assume "p2 \<in> set as"
    then have "path_before p2 p1"
      using assms(1) f by (auto simp: sorted_wrt_append)
    then show False using assms(4) path_before_asym by blast
  qed
  then have "p2 \<in> set rest"
    using assms(3) f ne by auto
  then obtain bs cs where "rest = bs @ p2 # cs"
    by (auto simp: in_set_conv_decomp)
  then show ?thesis using f by blast
qed

lemma compiled_files_append:
  "compiled_files lib fs (xs @ ys) = compiled_files lib fs xs @ compiled_files lib fs ys"
  by (simp add: compiled_files_def)

lemma compiled_files_Cons_Compiled:
  "policy_file_new_from_path lib (g_key_file_load_from_file fs p) = Compiled f \<Longrightarrow>
     compiled_files lib fs (p # ps) = f # compiled_files lib fs ps"
  by (simp add: compiled_files_def)

text \<open>
  \<open>policy_file_test\<close> returns the verdict of the first file of the chain whose normal
  chain does not yield \<open>UNKNOWN\<close>: a file is consulted only if every earlier one yields
  \<open>UNKNOWN\<close>.
\<close>

lemma policy_file_test_first_known:
  "policy_file_test wheel f fs a c =
     (case filter (\<lambda>r. r \<noteq> UNKNOWN) (map (normal_chain_test wheel a c) (f # fs)) of
        [] \<Rightarrow> UNKNOWN
      | r # _ \<Rightarrow> r)"
proof (induction fs arbitrary: f)
  case Nil
  then show ?case by (simp add: policy_file_test_step)
next
  case (Cons g gs)
  show ?case
    using Cons [of g] by (simp add: policy_file_test_step [of wheel f])
qed

lemma policy_file_test_append:
  assumes "g # gs = pre @ f2 # zs"
  shows "policy_file_test wheel g gs a c =
     (case filter (\<lambda>r. r \<noteq> UNKNOWN) (map (normal_chain_test wheel a c) pre) of
        [] \<Rightarrow> policy_file_test wheel f2 zs a c
      | r # _ \<Rightarrow> r)"
  unfolding policy_file_test_first_known [of wheel g gs] assms
    policy_file_test_first_known [of wheel f2 zs]
  by (simp split: list.splits)

text \<open>
  Claim C8 as stated fails: with \<open>/usr\<close> ahead of \<open>/etc\<close> in the list of
  directories, the file of \<open>/etc\<close> is still linked first, and its verdict shadows that of
  the file of the first directory.
\<close>

theorem C8_counterexample:
  "load_rules libpolkit_example fs_etc_usr \<lparr>rules_dirs = [''/usr'', ''/etc''], policy = []\<rparr>
     = Some \<lparr>rules_dirs = [''/usr'', ''/etc''], policy = [file_deny, file_grant]\<rparr>
   \<and> policy_file_new_from_path libpolkit_example
        (g_key_file_load_from_file fs_etc_usr ''/usr/a.keyrules'') = Compiled file_grant
   \<and> policy_file_new_from_path libpolkit_example
        (g_key_file_load_from_file fs_etc_usr ''/etc/a.keyrules'') = Compiled file_deny
   \<and> rules_file_name_cmp ''/usr/a.keyrules'' ''/etc/a.keyrules'' = Some 1
   \<and> polkit_backend_keyfile_authority_check_authorization_sync ''wheel'' os_example
        \<lparr>rules_dirs = [''/usr'', ''/etc''], policy = [file_deny, file_grant]\<rparr>
        (UnixProcess 4242) (UnixUser 1000) True True ''org.example.action''
        AUTHENTICATION_REQUIRED = Some NOT_AUTHORIZED"
proof -
  have g: "policy_file_new_from_path libpolkit_example
        (g_key_file_load_from_file fs_etc_usr ''/usr/a.keyrules'') = Compiled file_grant"
    by (simp add: policy_file_new_from_path_def policy_file_load_rules_def policy_load_def
        load_string_list_def load_result_def load_result_inverse_def load_boolean_def
        and_then_def policy_new0_def policy_string_to_result_def g_ascii_strdown_def
        g_ascii_tolower_def g_strstrip_defs keyfile_grant_def fs_etc_usr_def file_grant_def
        key_file_of_def libpolkit_example_def blank_rule_def POLICY_SECTION_def
        PF_CONSTRAINT_defs)
  have d: "policy_file_new_from_path libpolkit_example
        (g_key_file_load_from_file fs_etc_usr ''/etc/a.keyrules'') = Compiled file_deny"
    by (simp add: policy_file_new_from_path_def policy_file_load_rules_def policy_load_def
        load_string_list_def load_result_def load_result_inverse_def load_boolean_def
        and_then_def policy_new0_def policy_string_to_result_def g_ascii_strdown_def
        g_ascii_tolower_def g_strstrip_defs keyfile_deny_def fs_etc_usr_def file_deny_def
        key_file_of_def libpolkit_example_def blank_rule_def POLICY_SECTION_def
        PF_CONSTRAINT_defs)
  have c: "rules_file_name_cmp ''/usr/a.keyrules'' ''/etc/a.keyrules'' = Some 1"
    by (simp add: rules_file_name_cmp_def)
  have c': "rules_file_name_cmp ''/etc/a.keyrules'' ''/usr/a.keyrules'' = Some (-1)"
    by (simp add: rules_file_name_cmp_def)
  have f: "collect_files fs_etc_usr [''/usr'', ''/etc''] = [''/etc/a.keyrules'', ''/usr/a.keyrules'']"
    by (simp add: collect_files_def collect_names_def fs_etc_usr_def g_str_has_suffix_def)
  have l: "load_rules libpolkit_example fs_etc_usr \<lparr>rules_dirs = [''/usr'', ''/etc''], policy = []\<rparr>
     = Some \<lparr>rules_dirs = [''/usr'', ''/etc''], policy = [file_deny, file_grant]\<rparr>"
    by (simp add: load_rules_def f c c' g d)
  have p: "polkit_backend_keyfile_internal_prepare_context os_example (UnixProcess 4242)
      (UnixUser 1000) True True
      = Prepared \<lparr>subject_is_local = True, subject_is_active = True,
                   groups = [''alice'', ''users''], username = ''alice''\<rparr>"
    by (simp add: polkit_backend_keyfile_internal_prepare_context_def os_example_def
          group_names_def)
  have t: "policy_file_test ''wheel'' file_deny [file_grant] ''org.example.action'' cx
             = NOT_AUTHORIZED" for cx
    by (simp add: policy_file_test.simps policy_test.simps policy_test_body_def
          has_constraint_def file_deny_def blank_rule_def PF_CONSTRAINT_defs g_strstrip_defs
          g_str_equal_def POLICY_MATCH_ALL_def)
  show ?thesis
    by (simp add: l g d c polkit_backend_keyfile_authority_check_authorization_sync_def p t)
qed

text \<open>
  The two directories alone, each with that one file: both orders of the list of
  directories give the same chain.
\<close>

lemma same_base_name_two_directories:
  assumes "CHR ''/'' \<notin> set n" and "g_str_has_suffix n ''.keyrules''"
    and "strcmp (d1 @ ''/'' @ n) (d2 @ ''/'' @ n) < 0"
    and "g_dir_read fs d1 = Some [n]" and "g_dir_read fs d2 = Some [n]"
    and "policy_file_new_from_path lib (g_key_file_load_from_file fs (d1 @ ''/'' @ n))
           = Compiled f1"
    and "policy_file_new_from_path lib (g_key_file_load_from_file fs (d2 @ ''/'' @ n))
           = Compiled f2"
  shows "path_before (d1 @ ''/'' @ n) (d2 @ ''/'' @ n)
       \<and> load_rules lib fs \<lparr>rules_dirs = [d1, d2], policy = []\<rparr>
           = Some \<lparr>rules_dirs = [d1, d2], policy = [f1, f2]\<rparr>
       \<and> load_rules lib fs \<lparr>rules_dirs = [d2, d1], policy = []\<rparr>
           = Some \<lparr>rules_dirs = [d2, d1], policy = [f1, f2]\<rparr>
       \<and> policy_file_test wheel f1 [f2] action_id c =
           (if normal_chain_test wheel action_id c f1 = UNKNOWN
            then normal_chain_test wheel action_id c f2
            else normal_chain_test wheel action_id c f1)"
proof -
  let ?p1 = "d1 @ ''/'' @ n" and ?p2 = "d2 @ ''/'' @ n"
  have ne: "?p1 \<noteq> ?p2"
    using assms(3) strcmp_eq_0_iff [of ?p1 ?p2] by auto
  have c12: "rules_file_name_cmp ?p1 ?p2 = Some (strcmp ?p1 ?p2)"
    using assms(1) ne by (rule rules_file_name_cmp_same_base)
  have c21: "rules_file_name_cmp ?p2 ?p1 = Some (- strcmp ?p1 ?p2)"
    using rules_file_name_cmp_same_base [OF assms(1) ne [symmetric]]
      strcmp_swap [of ?p2 ?p1]
    by simp
  have f12: "collect_files fs [d1, d2] = [?p2, ?p1]"
    using assms(2,4,5) by (simp add: collect_files_def collect_names_single)
  have f21: "collect_files fs [d2, d1] = [?p1, ?p2]"
    using assms(2,4,5) by (simp add: collect_files_def collect_names_single)
  have s12: "g_list_sort rules_file_name_cmp [?p2, ?p1] = Some [?p1, ?p2]"
    using assms(3) c21 by simp
  have s21: "g_list_sort rules_file_name_cmp [?p1, ?p2] = Some [?p1, ?p2]"
    using assms(3) c12 by simp
  have l: "link_files lib fs [?p1, ?p2] False [] = Some [f1, f2]"
    using assms(6,7) by simp
  have a: "load_rules lib fs \<lparr>rules_dirs = [d1, d2], policy = []\<rparr>
           = Some \<lparr>rules_dirs = [d1, d2], policy = [f1, f2]\<rparr>"
    using f12 s12 l by (simp add: load_rules_def)
  have b: "load_rules lib fs \<lparr>rules_dirs = [d2, d1], policy = []\<rparr>
           = Some \<lparr>rules_dirs = [d2, d1], policy = [f1, f2]\<rparr>"
    using f21 s21 l by (simp add: load_rules_def)
  have pb: "path_before ?p1 ?p2"
    using c12 assms(3) by (simp add: path_before_def)
  show ?thesis
    using pb a b
    by (simp add: policy_file_test_step [of wheel f1] policy_file_test_step [of wheel f2])
qed

text \<open>
  Claim C8, amended.  Let two directories of the list each hold a rule file of the same
  base name, among any other files and directories, and let both files compile.  Whenever
  the loader returns, the file whose full path is the smaller one under \<open>strcmp\<close> is put
  first by the comparison and linked ahead of the other in the chain, whichever of the two
  directories comes first in the list; the other file is loaded as well, and evaluation
  reaches it only if the normal chain of every file linked before it yields \<open>UNKNOWN\<close>:
  otherwise the verdict is that of the first earlier file that yields another verdict.
\<close>

theorem C8_same_base_name_order:
  assumes "load_rules lib fs auth = Some auth'"
    and "d1 \<in> set (rules_dirs auth)" and "d2 \<in> set (rules_dirs auth)"
    and "g_dir_read fs d1 = Some names1" and "g_dir_read fs d2 = Some names2"
    and "n \<in> set names1" and "n \<in> set names2"
    and "CHR ''/'' \<notin> set n" and "g_str_has_suffix n ''.keyrules''"
    and "strcmp (d1 @ ''/'' @ n) (d2 @ ''/'' @ n) < 0"
    and "policy_file_new_from_path lib (g_key_file_load_from_file fs (d1 @ ''/'' @ n))
           = Compiled f1"
    and "policy_file_new_from_path lib (g_key_file_load_from_file fs (d2 @ ''/'' @ n))
           = Compiled f2"
  shows "path_before (d1 @ ''/'' @ n) (d2 @ ''/'' @ n)
       \<and> (\<exists>xs ys zs. policy auth' = xs @ f1 # ys @ f2 # zs
             \<and> (\<forall>g gs wheel action_id c. policy auth' = g # gs \<longrightarrow>
                  policy_file_test wheel g gs action_id c =
                    (case filter (\<lambda>r. r \<noteq> UNKNOWN)
                            (map (normal_chain_test wheel action_id c) (xs @ f1 # ys)) of
                       [] \<Rightarrow> policy_file_test wheel f2 zs action_id c
                     | r # _ \<Rightarrow> r)))"
proof -
  let ?p1 = "d1 @ ''/'' @ n" and ?p2 = "d2 @ ''/'' @ n"
  have ne: "?p1 \<noteq> ?p2"
    using assms(10) strcmp_eq_0_iff [of ?p1 ?p2] by auto
  have "rules_file_name_cmp ?p1 ?p2 = Some (strcmp ?p1 ?p2)"
    using assms(8) ne by (rule rules_file_name_cmp_same_base)
  then have pb: "path_before ?p1 ?p2"
    using assms(10) by (simp add: path_before_def)
  from assms(1) obtain files pol
    where s: "g_list_sort rules_file_name_cmp (collect_files fs (rules_dirs auth)) = Some files"
      and l: "link_files lib fs files False (policy auth) = Some pol"
      and e: "auth' = auth\<lparr>policy := pol\<rparr>"
    by (auto simp: load_rules_def split: option.splits)
  have sorted: "sorted_wrt path_before files"
    and m: "mset files = mset (collect_files fs (rules_dirs auth))"
    using g_list_sort_sorted [OF s] by simp_all
  have "?p1 \<in> set (collect_files fs (rules_dirs auth))"
    using assms(2,4,6,9) by (rule collect_files_member)
  then have in1: "?p1 \<in> set files"
    using m by (metis set_mset_mset)
  have "?p2 \<in> set (collect_files fs (rules_dirs auth))"
    using assms(3,5,7,9) by (rule collect_files_member)
  then have in2: "?p2 \<in> set files"
    using m by (metis set_mset_mset)
  obtain as bs cs where f: "files = as @ ?p1 # bs @ ?p2 # cs"
    using sorted_positions [OF sorted in1 in2 pb] by blast
  have c: "compiled_files lib fs files =
      compiled_files lib fs as @ f1 # compiled_files lib fs bs @ f2 # compiled_files lib fs cs"
    unfolding f
    by (simp only: compiled_files_append compiled_files_Cons_Compiled [OF assms(11)]
          compiled_files_Cons_Compiled [OF assms(12)])
  then have "compiled_files lib fs files \<noteq> []" by simp
  then have "pol = compiled_files lib fs files"
    using link_files_result [OF l] by simp
  then have p: "policy auth' =
      compiled_files lib fs as @ f1 # compiled_files lib fs bs @ f2 # compiled_files lib fs cs"
    using c e by simp
  have t: "policy_file_test wheel g gs action_id c =
                    (case filter (\<lambda>r. r \<noteq> UNKNOWN)
                            (map (normal_chain_test wheel action_id c)
                               (compiled_files lib fs as @ f1 # compiled_files lib fs bs)) of
                       [] \<Rightarrow> policy_file_test wheel f2 (compiled_files lib fs cs) action_id c
                     | r # _ \<Rightarrow> r)"
    if "policy auth' = g # gs" for g gs wheel action_id c
  proof (rule policy_file_test_append)
    show "g # gs = (compiled_files lib fs as @ f1 # compiled_files lib fs bs)
                     @ f2 # compiled_files lib fs cs"
      using that p by simp
  qed
  show ?thesis
    using pb p t by blast
qed


lemma compile_examples:
  "policy_file_new_from_path libpolkit_example (Some keyfile_deny) = Compiled file_deny"
  "policy_file_new_from_path libpolkit_example (Some keyfile_grant) = Compiled file_grant"
  by (simp_all add: policy_file_new_from_path_def policy_file_load_rules_def policy_load_def
        load_string_list_def load_result_def load_result_inverse_def load_boolean_def
        and_then_def policy_new0_def policy_string_to_result_def g_ascii_strdown_def
        g_ascii_tolower_def g_strstrip_defs keyfile_deny_def keyfile_grant_def file_deny_def
        file_grant_def key_file_of_def libpolkit_example_def blank_rule_def POLICY_SECTION_def
        PF_CONSTRAINT_defs)

theorem C8_same_base_name_order_witness:
  "load_rules libpolkit_example fs_etc_usr_more \<lparr>rules_dirs = [''/usr'', ''/etc''], policy = [file_grant]\<rparr>
     = Some \<lparr>rules_dirs = [''/usr'', ''/etc''], policy = [file_deny, file_grant, file_grant]\<rparr>
   \<and> strcmp (''/etc'' @ ''/'' @ ''a.keyrules'') (''/usr'' @ ''/'' @ ''a.keyrules'') < 0
   \<and> path_before (''/etc'' @ ''/'' @ ''a.keyrules'') (''/usr'' @ ''/'' @ ''a.keyrules'')
   \<and> (\<exists>xs ys zs. [file_deny, file_grant, file_grant] = xs @ file_deny # ys @ file_grant # zs
         \<and> policy_file_test ''wheel'' file_deny [file_grant, file_grant] ''org.example.action''
              ctx_alice
            = (case filter (\<lambda>r. r \<noteq> UNKNOWN)
                      (map (normal_chain_test ''wheel'' ''org.example.action'' ctx_alice)
                         (xs @ file_deny # ys)) of
                 [] \<Rightarrow> policy_file_test ''wheel'' file_grant zs ''org.example.action'' ctx_alice
               | r # _ \<Rightarrow> r))"
proof -
  have cmp: "rules_file_name_cmp ''/usr/a.keyrules'' ''/usr/b.keyrules'' = Some (-1)"
    "rules_file_name_cmp ''/etc/a.keyrules'' ''/usr/a.keyrules'' = Some (-1)"
    by (simp_all add: rules_file_name_cmp_def)
  have files: "collect_files fs_etc_usr_more [''/usr'', ''/etc'']
      = [''/etc/a.keyrules'', ''/usr/a.keyrules'', ''/usr/b.keyrules'']"
    by (simp add: collect_files_def collect_names_def fs_etc_usr_more_def g_str_has_suffix_def)
  have load: "g_key_file_load_from_file fs_etc_usr_more ''/etc/a.keyrules'' = Some keyfile_deny"
    "g_key_file_load_from_file fs_etc_usr_more ''/usr/a.keyrules'' = Some keyfile_grant"
    "g_key_file_load_from_file fs_etc_usr_more ''/usr/b.keyrules'' = Some keyfile_grant"
    by (simp_all add: fs_etc_usr_more_def)
  have 1: "load_rules libpolkit_example fs_etc_usr_more
      \<lparr>rules_dirs = [''/usr'', ''/etc''], policy = [file_grant]\<rparr>
     = Some \<lparr>rules_dirs = [''/usr'', ''/etc''], policy = [file_deny, file_grant, file_grant]\<rparr>"
    by (simp add: load_rules_def files cmp load compile_examples)
  have 2: "''/etc'' \<in> set (rules_dirs \<lparr>rules_dirs = [''/usr'', ''/etc''], policy = [file_grant]\<rparr>)"
    and 3: "''/usr'' \<in> set (rules_dirs \<lparr>rules_dirs = [''/usr'', ''/etc''], policy = [file_grant]\<rparr>)"
    by simp_all
  have 4: "g_dir_read fs_etc_usr_more ''/etc'' = Some [''README'', ''a.keyrules'']"
    and 5: "g_dir_read fs_etc_usr_more ''/usr'' = Some [''b.keyrules'', ''a.keyrules'']"
    by (simp_all add: fs_etc_usr_more_def)
  have 6: "''a.keyrules'' \<in> set [''README'', ''a.keyrules'']"
    and 7: "''a.keyrules'' \<in> set [''b.keyrules'', ''a.keyrules'']"
    by simp_all
  have 8: "CHR ''/'' \<notin> set ''a.keyrules''" by simp
  have 9: "g_str_has_suffix ''a.keyrules'' ''.keyrules''" by (simp add: g_str_has_suffix_def)
  have 10: "strcmp (''/etc'' @ ''/'' @ ''a.keyrules'') (''/usr'' @ ''/'' @ ''a.keyrules'') < 0"
    by simp
  have 11: "policy_file_new_from_path libpolkit_example
        (g_key_file_load_from_file fs_etc_usr_more (''/etc'' @ ''/'' @ ''a.keyrules'')) = Compiled file_deny"
    and 12: "policy_file_new_from_path libpolkit_example
        (g_key_file_load_from_file fs_etc_usr_more (''/usr'' @ ''/'' @ ''a.keyrules'')) = Compiled file_grant"
    using load by (simp_all add: compile_examples)
  let ?auth' = "\<lparr>rules_dirs = [''/usr'', ''/etc''], policy = [file_deny, file_grant, file_grant]\<rparr>"
  have th: "path_before (''/etc'' @ ''/'' @ ''a.keyrules'') (''/usr'' @ ''/'' @ ''a.keyrules'')
       \<and> (\<exists>xs ys zs. policy ?auth' = xs @ file_deny # ys @ file_grant # zs
             \<and> (\<forall>g gs wheel action_id c. policy ?auth' = g # gs \<longrightarrow>
                  policy_file_test wheel g gs action_id c =
                    (case filter (\<lambda>r. r \<noteq> UNKNOWN)
                            (map (normal_chain_test wheel action_id c) (xs @ file_deny # ys)) of
                       [] \<Rightarrow> policy_file_test wheel file_grant zs action_id c
                     | r # _ \<Rightarrow> r)))"
    by (rule C8_same_base_name_order [OF 1 2 3 4 5 6 7 8 9 10 11 12])
  then have p: "path_before (''/etc'' @ ''/'' @ ''a.keyrules'') (''/usr'' @ ''/'' @ ''a.keyrules'')"
    by (rule conjunct1)
  from th obtain xs ys zs where
    split: "policy ?auth' = xs @ file_deny # ys @ file_grant # zs"
    and t: "\<forall>g gs wheel action_id c. policy ?auth' = g # gs \<longrightarrow>
                  policy_file_test wheel g gs action_id c =
                    (case filter (\<lambda>r. r \<noteq> UNKNOWN)
                            (map (normal_chain_test wheel action_id c) (xs @ file_deny # ys)) of
                       [] \<Rightarrow> policy_file_test wheel file_grant zs action_id c
                     | r # _ \<Rightarrow> r)"
    by blast
  have split': "[file_deny, file_grant, file_grant] = xs @ file_deny # ys @ file_grant # zs"
    using split by (simp only: authority.simps)
  have "policy ?auth' = file_deny # [file_grant, file_grant]"
    by (simp only: authority.simps)
  then have "policy_file_test ''wheel'' file_deny [file_grant, file_grant] ''org.example.action''
              ctx_alice
            = (case filter (\<lambda>r. r \<noteq> UNKNOWN)
                      (map (normal_chain_test ''wheel'' ''org.example.action'' ctx_alice)
                         (xs @ file_deny # ys)) of
                 [] \<Rightarrow> policy_file_test ''wheel'' file_grant zs ''org.example.action'' ctx_alice
               | r # _ \<Rightarrow> r)"
    using t by blast
  then show ?thesis
    using 1 10 p split' by blast
qed

section \<open>Reloading\<close>

lemma collect_files_fold_unreadable:
  "(\<forall>d\<in>set dirs. g_dir_read fs d = None) \<Longrightarrow>
     fold (\<lambda>dir_name files.
             case g_dir_read fs dir_name of
               None \<Rightarrow> files
             | Some names \<Rightarrow> collect_names dir_name names files)
       dirs acc = acc"
  by (induction dirs arbitrary: acc) simp_all

lemma collect_files_unreadable:
  "(\<forall>d\<in>set dirs. g_dir_read fs d = None) \<Longrightarrow> collect_files fs dirs = []"
  by (simp add: collect_files_def collect_files_fold_unreadable)

text \<open>
  The chain that \<open>load_rules\<close> builds on an authority without policy files: the files
  that compile, in the sorted order of all paths found.
\<close>

lemma load_rules_chain:
  assumes "load_rules lib fs auth = Some auth'" and "policy auth = []"
  shows "\<exists>files. sorted_wrt path_before files
                \<and> mset files = mset (collect_files fs (rules_dirs auth))
                \<and> auth' = auth\<lparr>policy := compiled_files lib fs files\<rparr>"
proof -
  from assms(1) obtain files pol
    where s: "g_list_sort rules_file_name_cmp (collect_files fs (rules_dirs auth)) = Some files"
      and l: "link_files lib fs files False (policy auth) = Some pol"
      and e: "auth' = auth\<lparr>policy := pol\<rparr>"
    by (auto simp: load_rules_def split: option.splits)
  have "pol = compiled_files lib fs files"
    using link_files_result [OF l] assms(2) by (simp split: if_splits)
  then show ?thesis
    using g_list_sort_sorted [OF s] e by auto
qed

text \<open>
  Claim C9 as stated fails: a reload on a file system whose rules directories cannot be
  opened leaves the authority without any policy file, although one was active before; the
  next authorization check then reads through the NULL chain.
\<close>

theorem C9_counterexample:
  "reload_rules libpolkit_example fs_unreadable
     \<lparr>rules_dirs = [''/etc'', ''/usr''], policy = [file_deny]\<rparr>
     = Some \<lparr>rules_dirs = [''/etc'', ''/usr''], policy = []\<rparr>
   \<and> polkit_backend_keyfile_authority_check_authorization_sync ''wheel'' os_example
        \<lparr>rules_dirs = [''/etc'', ''/usr''], policy = [file_deny]\<rparr>
        (UnixProcess 4242) (UnixUser 1000) True True ''org.example.action'' AUTHORIZED
       = Some NOT_AUTHORIZED
   \<and> polkit_backend_keyfile_authority_check_authorization_sync ''wheel'' os_example
        \<lparr>rules_dirs = [''/etc'', ''/usr''], policy = []\<rparr>
        (UnixProcess 4242) (UnixUser 1000) True True ''org.example.action'' AUTHORIZED
       = None"
proof -
  have p: "polkit_backend_keyfile_internal_prepare_context os_example (UnixProcess 4242)
      (UnixUser 1000) True True
      = Prepared \<lparr>subject_is_local = True, subject_is_active = True,
                   groups = [''alice'', ''users''], username = ''alice''\<rparr>"
    by (simp add: polkit_backend_keyfile_internal_prepare_context_def os_example_def
          group_names_def)
  have t: "policy_file_test ''wheel'' file_deny [] ''org.example.action'' cx = NOT_AUTHORIZED"
    for cx
    by (simp add: policy_file_test.simps policy_test.simps policy_test_body_def
          has_constraint_def file_deny_def blank_rule_def PF_CONSTRAINT_defs g_strstrip_defs
          g_str_equal_def POLICY_MATCH_ALL_def)
  have r: "reload_rules libpolkit_example fs_unreadable
     \<lparr>rules_dirs = [''/etc'', ''/usr''], policy = [file_deny]\<rparr>
     = Some \<lparr>rules_dirs = [''/etc'', ''/usr''], policy = []\<rparr>"
    by (simp add: reload_rules_def load_rules_def collect_files_def fs_unreadable_def)
  show ?thesis
    by (simp add: r p t polkit_backend_keyfile_authority_check_authorization_sync_def)
qed

text \<open>
  Claim C9, amended.  A reload first discards the active rule-set and then loads from
  scratch: its outcome does not depend on the rule-set that was active; when it returns,
  the new rule-set consists of exactly the files that compile, in sorted order; and when
  no rules directory can be opened, or no rule file can be read, the new rule-set is empty
  (the previous one is not kept).
\<close>

theorem C9_reload_discards_previous:
  "reload_rules lib fs (auth\<lparr>policy := old\<rparr>) = reload_rules lib fs (auth\<lparr>policy := []\<rparr>)
   \<and> (\<forall>auth'. reload_rules lib fs auth = Some auth' \<longrightarrow>
         (\<exists>files. g_list_sort rules_file_name_cmp (collect_files fs (rules_dirs auth))
                    = Some files
                 \<and> auth' = auth\<lparr>policy := compiled_files lib fs files\<rparr>))
   \<and> ((\<forall>d\<in>set (rules_dirs auth). g_dir_read fs d = None) \<longrightarrow>
         reload_rules lib fs auth = Some (auth\<lparr>policy := []\<rparr>))
   \<and> (\<forall>files. g_list_sort rules_file_name_cmp (collect_files fs (rules_dirs auth))
                  = Some files
               \<and> (\<forall>f\<in>set files. g_key_file_load_from_file fs f = None) \<longrightarrow>
         reload_rules lib fs auth = Some (auth\<lparr>policy := []\<rparr>))"
proof (intro conjI allI impI)
  show "reload_rules lib fs (auth\<lparr>policy := old\<rparr>) = reload_rules lib fs (auth\<lparr>policy := []\<rparr>)"
    by (simp add: reload_rules_def)
next
  fix auth'
  assume a: "reload_rules lib fs auth = Some auth'"
  then obtain files where s: "g_list_sort rules_file_name_cmp (collect_files fs (rules_dirs auth))
      = Some files"
    by (auto simp: reload_rules_def load_rules_def split: option.splits)
  obtain pol where l: "link_files lib fs files False [] = Some pol"
    and e: "auth' = auth\<lparr>policy := pol\<rparr>"
    using a s by (auto simp: reload_rules_def load_rules_def split: option.splits)
  have "pol = compiled_files lib fs files"
    using link_files_result [OF l] by (simp split: if_splits)
  then show "\<exists>files. g_list_sort rules_file_name_cmp (collect_files fs (rules_dirs auth))
                    = Some files
                 \<and> auth' = auth\<lparr>policy := compiled_files lib fs files\<rparr>"
    using s e by simp
next
  assume "\<forall>d\<in>set (rules_dirs auth). g_dir_read fs d = None"
  then have "collect_files fs (rules_dirs auth) = []"
    by (rule collect_files_unreadable)
  then show "reload_rules lib fs auth = Some (auth\<lparr>policy := []\<rparr>)"
    by (simp add: reload_rules_def load_rules_def)
next
  fix files
  assume "g_list_sort rules_file_name_cmp (collect_files fs (rules_dirs auth)) = Some files
          \<and> (\<forall>f\<in>set files. g_key_file_load_from_file fs f = None)"
  then show "reload_rules lib fs auth = Some (auth\<lparr>policy := []\<rparr>)"
    by (simp add: reload_rules_def load_rules_def link_files_all_load_errors)
qed

theorem C9_reload_discards_previous_witness:
  "reload_rules libpolkit_example fs_unreadable
     \<lparr>rules_dirs = [''/etc'', ''/usr''], policy = [file_grant]\<rparr>
     = Some \<lparr>rules_dirs = [''/etc'', ''/usr''], policy = []\<rparr>
   \<and> reload_rules libpolkit_example fs_etc_usr
       \<lparr>rules_dirs = [''/etc'', ''/usr''], policy = [file_grant]\<rparr>
     = reload_rules libpolkit_example fs_etc_usr \<lparr>rules_dirs = [''/etc'', ''/usr''], policy = []\<rparr>"
proof -
  have u: "\<forall>d\<in>set (rules_dirs \<lparr>rules_dirs = [''/etc'', ''/usr''], policy = [file_grant]\<rparr>).
             g_dir_read fs_unreadable d = None"
    by (simp add: fs_unreadable_def)
  show ?thesis
    using u
      C9_reload_discards_previous [where lib = libpolkit_example and fs = fs_unreadable
        and auth = "\<lparr>rules_dirs = [''/etc'', ''/usr''], policy = [file_grant]\<rparr>"
        and old = "[]"]
      C9_reload_discards_previous [where lib = libpolkit_example and fs = fs_etc_usr
        and auth = "\<lparr>rules_dirs = [''/etc'', ''/usr''], policy = []\<rparr>"
        and old = "[file_grant]"]
    by simp
qed

section \<open>The harvest reads the netgroups\<close>

lemma harvest_reads_net_groups:
  "rev (harvest libpolkit_example ''wheel'' [\<lparr>normal = [], admin = [rule_netgroup]\<rparr>])
     = [UnixNetgroup ''ops'']
   \<and> harvest libpolkit_example ''wheel'' [\<lparr>normal = [], admin = [rule_grant_all]\<rparr>] = []"
  by (simp add: harvest_def admin_of_policy_def has_constraint_def example_rule_defs
        PF_CONSTRAINT_defs g_strstrip_defs g_str_equal_def POLICY_MATCH_WHEEL_def
        libpolkit_example_def)

end
